theory Spec2Isabelle
  imports Complex_Main "HOL-Library.FSet" "HOL-Library.AList"
    "HOL-Library.Char_ord" "HOL-Library.List_Lexorder"
begin

section \<open>Data model\<close>

text \<open>
  A page is named by a string.  A corpus is a Python dictionary from a page to the set of
  pages it links to: an association list in insertion order (each key once), the values
  finite sets.  A probability distribution and a rank table are dictionaries from a page
  to a number.  The program is modelled twice.  In the sections that follow Python's floats
  are exact real numbers: this is the arithmetic in which the specification states its
  rules.  The section on the arithmetic of the program models the same functions over
  binary64 numbers.
\<close>

type_synonym page = string
type_synonym corpus = "(page \<times> page fset) list"
type_synonym ranks = "(page \<times> real) list"

datatype py_error = KeyError | ZeroDivisionError | OSError

text \<open>\<^verbatim>\<open>a / b\<close> on numbers raises \<^verbatim>\<open>ZeroDivisionError\<close> when \<^verbatim>\<open>b\<close> is zero.\<close>

definition py_div :: "real \<Rightarrow> real \<Rightarrow> py_error + real" where
  "py_div a b = (if b = 0 then Inl ZeroDivisionError else Inr (a / b))"

text \<open>\<^verbatim>\<open>d[k]\<close> raises \<^verbatim>\<open>KeyError\<close> when \<^verbatim>\<open>k\<close> is not a key of \<^verbatim>\<open>d\<close>.\<close>

definition py_getitem :: "('k \<times> 'v) list \<Rightarrow> 'k \<Rightarrow> py_error + 'v" where
  "py_getitem d k = (case map_of d k of None \<Rightarrow> Inl KeyError | Some v \<Rightarrow> Inr v)"

definition keys :: "('k \<times> 'v) list \<Rightarrow> 'k list" where
  "keys d = map fst d"

text \<open>The corpus invariant of the specification: every link set is a subset of the key set.\<close>

definition links_closed :: "corpus \<Rightarrow> bool" where
  "links_closed c = list_all (\<lambda>(p, links). fset links \<subseteq> set (keys c)) c"

text \<open>No page links to itself.\<close>

definition no_self_links :: "corpus \<Rightarrow> bool" where
  "no_self_links c = list_all (\<lambda>(p, links). p |\<notin>| links) c"

section \<open>The transition model\<close>

text \<open>
  \<^verbatim>\<open>transition_model(corpus, page, damping_factor)\<close>, lines 52 to 84.  A page with no link
  takes the corpus's keys as its links; the loop over the corpus then gives every page
  \<^verbatim>\<open>link_prob + random_prob\<close> or \<^verbatim>\<open>random_prob\<close>.
\<close>

definition transition_model :: "corpus \<Rightarrow> page \<Rightarrow> real \<Rightarrow> py_error + ranks" where
  "transition_model corpus page damping_factor =
     (case py_getitem corpus page of
        Inl e \<Rightarrow> Inl e
      | Inr links \<Rightarrow>
          let (linked_pages, num_linked_pages) =
                (if fcard links = 0 then (fset_of_list (keys corpus), length corpus)
                 else (links, fcard links))
          in (case py_div damping_factor (real num_linked_pages) of
                Inl e \<Rightarrow> Inl e
              | Inr link_prob \<Rightarrow>
                  (case py_div (1 - damping_factor) (real (length corpus)) of
                     Inl e \<Rightarrow> Inl e
                   | Inr random_prob \<Rightarrow>
                       Inr (map (\<lambda>(p, _). (p, if p |\<in>| linked_pages
                                               then link_prob + random_prob
                                               else random_prob)) corpus))))"

section \<open>The iterative estimator\<close>

text \<open>A comprehension or a loop over a list that stops at the first exception raised.\<close>

fun map_err :: "('a \<Rightarrow> 'e + 'b) \<Rightarrow> 'a list \<Rightarrow> 'e + 'b list" where
  "map_err f [] = Inr []"
| "map_err f (x # xs) =
     (case f x of
        Inl e \<Rightarrow> Inl e
      | Inr y \<Rightarrow> (case map_err f xs of Inl e \<Rightarrow> Inl e | Inr ys \<Rightarrow> Inr (y # ys)))"

text \<open>
  Line 134: \<^verbatim>\<open>pagerank = {page: 1 / len(corpus) for page in corpus}\<close>.  The division is
  evaluated once for every page, so an empty corpus gives the empty table without dividing.
\<close>

definition initial_pagerank :: "corpus \<Rightarrow> py_error + ranks" where
  "initial_pagerank corpus =
     map_err (\<lambda>(page, _). case py_div 1 (real (length corpus)) of
                              Inl e \<Rightarrow> Inl e
                            | Inr v \<Rightarrow> Inr (page, v)) corpus"

text \<open>
  Line 143, the generator summed by \<^verbatim>\<open>sum\<close>:
  \<^verbatim>\<open>sum(old_pagerank[i] / len(corpus[i]) for i in corpus if page in corpus[i])\<close>.
  The corpus is walked in its order; \<^verbatim>\<open>sum\<close> starts from 0 and adds each term
  to the running total.  A page \<^verbatim>\<open>i\<close> contributes only under the guard
  \<^verbatim>\<open>page in corpus[i]\<close>.
\<close>

fun link_sum :: "ranks \<Rightarrow> page \<Rightarrow> corpus \<Rightarrow> real \<Rightarrow> py_error + real" where
  "link_sum old_pagerank page [] acc = Inr acc"
| "link_sum old_pagerank page ((i, links) # rest) acc =
     (if page |\<in>| links then
        (case py_getitem old_pagerank i of
           Inl e \<Rightarrow> Inl e
         | Inr r \<Rightarrow>
             (case py_div r (real (fcard links)) of
                Inl e \<Rightarrow> Inl e
              | Inr q \<Rightarrow> link_sum old_pagerank page rest (acc + q)))
      else link_sum old_pagerank page rest acc)"

text \<open>Line 143, the value stored for one page.\<close>

definition new_rank :: "corpus \<Rightarrow> real \<Rightarrow> ranks \<Rightarrow> page \<Rightarrow> py_error + real" where
  "new_rank corpus damping_factor old_pagerank page =
     (case py_div (1 - damping_factor) (real (length corpus)) of
        Inl e \<Rightarrow> Inl e
      | Inr base \<Rightarrow>
          (case link_sum old_pagerank page corpus 0 of
             Inl e \<Rightarrow> Inl e
           | Inr s \<Rightarrow> Inr (base + damping_factor * s)))"

text \<open>
  Lines 139 to 143, one round: \<^verbatim>\<open>old_pagerank\<close> is a copy of the table, and the loop
  overwrites the value of every key of \<^verbatim>\<open>pagerank\<close> in place, reading only the copy.
\<close>

definition update_round :: "corpus \<Rightarrow> real \<Rightarrow> ranks \<Rightarrow> py_error + ranks" where
  "update_round corpus damping_factor pagerank =
     (let old_pagerank = pagerank
      in map_err (\<lambda>(page, _). case new_rank corpus damping_factor old_pagerank page of
                                 Inl e \<Rightarrow> Inl e
                               | Inr v \<Rightarrow> Inr (page, v)) pagerank)"

text \<open>
  Line 146:
  \<^verbatim>\<open>all(abs(old_pagerank[page] - pagerank[page]) < 0.001 for page in pagerank)\<close>;
  \<^verbatim>\<open>all\<close> stops at the first page that fails the test.
\<close>

fun converged :: "ranks \<Rightarrow> ranks \<Rightarrow> page list \<Rightarrow> py_error + bool" where
  "converged old_pagerank pagerank [] = Inr True"
| "converged old_pagerank pagerank (page # rest) =
     (case py_getitem old_pagerank page of
        Inl e \<Rightarrow> Inl e
      | Inr u \<Rightarrow>
          (case py_getitem pagerank page of
             Inl e \<Rightarrow> Inl e
           | Inr v \<Rightarrow>
               if \<bar>u - v\<bar> < 1 / 1000 then converged old_pagerank pagerank rest
               else Inr False))"

text \<open>
  Lines 137 to 147, the loop \<^verbatim>\<open>while True\<close>.  It may run forever: the result
  \<open>None\<close> is the loop that never reaches \<^verbatim>\<open>break\<close>.
\<close>

partial_function (option) iterate_loop ::
  "corpus \<Rightarrow> real \<Rightarrow> ranks \<Rightarrow> (py_error + ranks) option" where
  "iterate_loop corpus damping_factor pagerank =
     (case update_round corpus damping_factor pagerank of
        Inl e \<Rightarrow> Some (Inl e)
      | Inr pagerank' \<Rightarrow>
          (case converged pagerank pagerank' (keys pagerank') of
             Inl e \<Rightarrow> Some (Inl e)
           | Inr stop \<Rightarrow>
               if stop then Some (Inr pagerank')
               else iterate_loop corpus damping_factor pagerank'))"

declare iterate_loop.simps [code]

definition iterate_pagerank :: "corpus \<Rightarrow> real \<Rightarrow> (py_error + ranks) option" where
  "iterate_pagerank corpus damping_factor =
     (case initial_pagerank corpus of
        Inl e \<Rightarrow> Some (Inl e)
      | Inr pagerank \<Rightarrow> iterate_loop corpus damping_factor pagerank)"

text \<open>
  The runs of the same loop as a relation: \<open>loop_returns corpus d pagerank r\<close> holds when
  the loop entered with the table \<open>pagerank\<close> leaves with \<open>r\<close>, a table after
  \<^verbatim>\<open>break\<close> or an exception raised in a round.
\<close>

inductive loop_returns :: "corpus \<Rightarrow> real \<Rightarrow> ranks \<Rightarrow> py_error + ranks \<Rightarrow> bool"
  for corpus :: corpus and damping_factor :: real where
  round_raises:
    "update_round corpus damping_factor pagerank = Inl e
     \<Longrightarrow> loop_returns corpus damping_factor pagerank (Inl e)"
| test_raises:
    "update_round corpus damping_factor pagerank = Inr pagerank'
     \<Longrightarrow> converged pagerank pagerank' (keys pagerank') = Inl e
     \<Longrightarrow> loop_returns corpus damping_factor pagerank (Inl e)"
| leave:
    "update_round corpus damping_factor pagerank = Inr pagerank'
     \<Longrightarrow> converged pagerank pagerank' (keys pagerank') = Inr True
     \<Longrightarrow> loop_returns corpus damping_factor pagerank (Inr pagerank')"
| again:
    "update_round corpus damping_factor pagerank = Inr pagerank'
     \<Longrightarrow> converged pagerank pagerank' (keys pagerank') = Inr False
     \<Longrightarrow> loop_returns corpus damping_factor pagerank' r
     \<Longrightarrow> loop_returns corpus damping_factor pagerank r"

text \<open>The value a table holds for a page, 0 for a page it does not hold.\<close>

definition rank_of :: "ranks \<Rightarrow> page \<Rightarrow> real" where
  "rank_of t p = (case map_of t p of None \<Rightarrow> 0 | Some v \<Rightarrow> v)"

text \<open>
  The number line 143 computes, without the exceptions: the term of a page \<open>i\<close> is
  counted when the page is in the link set of \<open>i\<close>.
\<close>

definition rank_update :: "corpus \<Rightarrow> real \<Rightarrow> (page \<Rightarrow> real) \<Rightarrow> page \<Rightarrow> real" where
  "rank_update corpus d old p =
     (1 - d) / real (length corpus)
     + d * (\<Sum>(i, links)\<leftarrow>corpus. if p |\<in>| links then old i / real (fcard links) else 0)"

text \<open>
  The update rule in the words of the specification, section 4.3: a page with links gives
  \<open>old_rank(i) / out_degree(i)\<close> to the pages it links to, and a sink page gives
  \<open>old_rank(i) / |corpus|\<close> to every page.
\<close>

definition spec_update_rule :: "corpus \<Rightarrow> real \<Rightarrow> (page \<Rightarrow> real) \<Rightarrow> page \<Rightarrow> real" where
  "spec_update_rule corpus d old_rank p =
     (1 - d) / real (length corpus)
     + d * (\<Sum>(i, links)\<leftarrow>corpus.
              if links = {||} then old_rank i / real (length corpus)
              else if p |\<in>| links then old_rank i / real (fcard links)
              else 0)"

text \<open>
  The tables the loop goes through, without the exceptions: the table of line 134, the
  table after one more round, and the table after \<open>k\<close> rounds.
\<close>

definition first_table :: "corpus \<Rightarrow> ranks" where
  "first_table corpus = map (\<lambda>(page, _). (page, 1 / real (length corpus))) corpus"

definition next_table :: "corpus \<Rightarrow> real \<Rightarrow> ranks \<Rightarrow> ranks" where
  "next_table corpus d pagerank =
     map (\<lambda>(page, _). (page, rank_update corpus d (rank_of pagerank) page)) pagerank"

definition table_after :: "corpus \<Rightarrow> real \<Rightarrow> nat \<Rightarrow> ranks" where
  "table_after corpus d k = (next_table corpus d ^^ k) (first_table corpus)"

text \<open>The total change between two tables, summed over the pages of the corpus.\<close>

definition change :: "corpus \<Rightarrow> ranks \<Rightarrow> ranks \<Rightarrow> real" where
  "change corpus old new = (\<Sum>p\<leftarrow>keys corpus. \<bar>rank_of new p - rank_of old p\<bar>)"

text \<open>
  A page reaches another along links.  When every page reaches every page the chain that
  follows links has a single class, so it has no two absorbing classes.
\<close>

inductive reaches :: "corpus \<Rightarrow> page \<Rightarrow> page \<Rightarrow> bool" for corpus :: corpus where
  here: "reaches corpus p p"
| step: "(p, links) \<in> set corpus \<Longrightarrow> q |\<in>| links \<Longrightarrow> reaches corpus q r
         \<Longrightarrow> reaches corpus p r"

definition single_class :: "corpus \<Rightarrow> bool" where
  "single_class c = list_all (\<lambda>p. list_all (\<lambda>q. reaches c p q) (keys c)) (keys c)"

text \<open>A corpus of three pages: \<open>a\<close> links to \<open>b\<close> and \<open>c\<close>, and each of them links back to \<open>a\<close>.\<close>

definition star :: corpus where
  "star = [(''a'', {|''b'', ''c''|}), (''b'', {|''a''|}), (''c'', {|''a''|})]"

section \<open>The corpus loader\<close>

text \<open>
  What the program reads from outside is a parameter of the model: a directory is the list
  of its entries in the order \<^verbatim>\<open>os.listdir\<close> gives them, each a file name with the text
  \<^verbatim>\<open>open(...).read()\<close> returns (\<open>None\<close> when the file cannot be opened or read), and
  \<open>findall\<close> stands for the regular-expression search of line 39, which gives the
  \<^verbatim>\<open>href\<close> targets found in a text.
\<close>

type_synonym directory = "(string \<times> string option) list"

definition endswith :: "string \<Rightarrow> string \<Rightarrow> bool" where
  "endswith s suffix =
     (length suffix \<le> length s \<and> drop (length s - length suffix) s = suffix)"

text \<open>
  Lines 34 to 40, the first loop.  \<^verbatim>\<open>pages[filename] = ...\<close> stores at an existing key
  in place and appends a new key.
\<close>

fun crawl_extract :: "(string \<Rightarrow> string list) \<Rightarrow> directory \<Rightarrow> corpus \<Rightarrow> py_error + corpus" where
  "crawl_extract findall [] pages = Inr pages"
| "crawl_extract findall ((filename, file) # rest) pages =
     (if \<not> endswith filename ''.html'' then crawl_extract findall rest pages
      else
        (case file of
           None \<Rightarrow> Inl OSError
         | Some contents \<Rightarrow>
             let links = findall contents
             in crawl_extract findall rest
                  (AList.update filename (fset_of_list links |-| {|filename|}) pages)))"

text \<open>
  Lines 43 to 47, the second loop: every link set keeps the links that are keys of
  \<^verbatim>\<open>pages\<close>.  The loop changes values only, so the keys tested are those of the first loop.
\<close>

definition crawl_restrict :: "corpus \<Rightarrow> corpus" where
  "crawl_restrict pages =
     map (\<lambda>(filename, links). (filename, ffilter (\<lambda>link. link \<in> set (keys pages)) links)) pages"

definition crawl :: "(string \<Rightarrow> string list) \<Rightarrow> directory \<Rightarrow> py_error + corpus" where
  "crawl findall entries =
     (case crawl_extract findall entries [] of
        Inl e \<Rightarrow> Inl e
      | Inr pages \<Rightarrow> Inr (crawl_restrict pages))"

section \<open>The sampling estimator\<close>

text \<open>
  \<^verbatim>\<open>sample_pagerank\<close>, lines 87 to 126, draws its samples with the Markov chain of the
  \<^verbatim>\<open>pgmpy\<close> library and counts them with \<^verbatim>\<open>value_counts\<close> of \<^verbatim>\<open>pandas\<close>.  Neither is part
  of the program: \<open>chain_sample\<close> stands for \<^verbatim>\<open>model.sample(size=n)\<close> on the chain with the
  given transition table (the state numbers it returns), \<open>value_counts\<close> for
  \<^verbatim>\<open>value_counts(normalize=True)\<close> (the table from a sampled value to its share).
\<close>

record library =
  chain_sample :: "real list list \<Rightarrow> nat \<Rightarrow> nat list"
  value_counts :: "(nat + page) list \<Rightarrow> ((nat + page) \<times> real) list"
  format_4f :: "real \<Rightarrow> string"

text \<open>Lines 102 to 107: row \<open>i\<close>, column \<open>j\<close> is the probability of page \<open>j\<close> after page \<open>i\<close>.\<close>

definition transition_model_dict :: "corpus \<Rightarrow> real \<Rightarrow> py_error + real list list" where
  "transition_model_dict corpus damping_factor =
     map_err (\<lambda>(page, _).
        case transition_model corpus page damping_factor of
          Inl e \<Rightarrow> Inl e
        | Inr trans_model \<Rightarrow>
            map_err (\<lambda>(linked_page, _). py_getitem trans_model linked_page) corpus) corpus"

text \<open>
  Lines 116 and 117: \<^verbatim>\<open>replace\<close> turns a state number that is a key of \<^verbatim>\<open>state_map\<close> into
  its page and leaves any other value as it is.
\<close>

definition replace_states :: "corpus \<Rightarrow> nat list \<Rightarrow> (nat + page) list" where
  "replace_states corpus samples =
     (let state_map = zip [0..<length corpus] (keys corpus)
      in map (\<lambda>s. case map_of state_map s of None \<Rightarrow> Inl s | Some page \<Rightarrow> Inr page) samples)"

definition sample_pagerank :: "library \<Rightarrow> corpus \<Rightarrow> real \<Rightarrow> nat \<Rightarrow> py_error + ranks" where
  "sample_pagerank lib corpus damping_factor n =
     (case transition_model_dict corpus damping_factor of
        Inl e \<Rightarrow> Inl e
      | Inr table \<Rightarrow>
          let samples = replace_states corpus (chain_sample lib table n);
              counts = value_counts lib samples
          in map_err (\<lambda>(page, _). case py_getitem counts (Inr page) of
                                     Inl e \<Rightarrow> Inl e
                                   | Inr v \<Rightarrow> Inr (page, v)) corpus)"

section \<open>The program\<close>

text \<open>
  How a run ends: it returns, it leaves through \<^verbatim>\<open>sys.exit\<close> with a message (the
  interpreter writes the message to standard error and the exit status is 1), or an
  exception is raised and not caught.
\<close>

datatype ending = Returned | SystemExit string | Raised py_error

fun exit_status :: "ending \<Rightarrow> nat" where
  "exit_status Returned = 0"
| "exit_status (SystemExit message) = 1"
| "exit_status (Raised e) = 1"

definition DAMPING :: real where
  "DAMPING = 85 / 100"

definition SAMPLES :: nat where
  "SAMPLES = 10000"

text \<open>Lines 17 and 18, and 21 and 22: one line for every page, in the order of the names.\<close>

definition print_ranks :: "library \<Rightarrow> ranks \<Rightarrow> string list" where
  "print_ranks lib ranks =
     map (\<lambda>(page, v). ''  '' @ page @ '': '' @ format_4f lib v) (sort_key fst ranks)"

text \<open>
  \<^verbatim>\<open>main\<close>, lines 11 to 22, on the argument vector \<^verbatim>\<open>sys.argv\<close>: the lines printed and
  how the run ends; \<open>None\<close> is a run that never ends.  \<open>listdir\<close> gives the entries of a
  directory, \<open>None\<close> when it cannot be listed.
\<close>

definition main ::
  "(string \<Rightarrow> directory option) \<Rightarrow> (string \<Rightarrow> string list) \<Rightarrow> library \<Rightarrow> string list
     \<Rightarrow> (string list \<times> ending) option" where
  "main listdir findall lib argv =
     (if length argv \<noteq> 2 then Some ([], SystemExit ''Usage: python pagerank.py corpus'')
      else
        (case listdir (argv ! 1) of
           None \<Rightarrow> Some ([], Raised OSError)
         | Some entries \<Rightarrow>
             (case crawl findall entries of
                Inl e \<Rightarrow> Some ([], Raised e)
              | Inr corpus \<Rightarrow>
                  (case sample_pagerank lib corpus DAMPING SAMPLES of
                     Inl e \<Rightarrow> Some ([], Raised e)
                   | Inr ranks \<Rightarrow>
                       let out = ''PageRank Results from Sampling (n = 10000)'' # print_ranks lib ranks
                       in (case iterate_pagerank corpus DAMPING of
                             None \<Rightarrow> None
                           | Some (Inl e) \<Rightarrow> Some (out, Raised e)
                           | Some (Inr ranks') \<Rightarrow>
                               Some (out @ ''PageRank Results from Iteration'' # print_ranks lib ranks',
                                     Returned))))))"

section \<open>The arithmetic of the program\<close>

text \<open>
  A Python float is an IEEE 754 binary64 number: a real number with a significand of 53
  bits and an exponent between -1022 and 1023 (\<open>Num x\<close>, for such an \<open>x\<close>), an infinity or
  a NaN.  The two zeros are not told apart: they are equal in every comparison the program
  makes, and a division by either raises \<^verbatim>\<open>ZeroDivisionError\<close>.

  \<open>exponent x\<close> is the integer \<open>e\<close> with \<open>2^e \<le> \<bar>x\<bar> < 2^(e+1)\<close>.  The numbers of binary64 next
  to \<open>x\<close> are the multiples of \<open>2^q\<close> with \<open>q = e - 52\<close>, and \<open>q = - 1074\<close> for the subnormal
  numbers.  \<open>round_to_double\<close> takes the nearest multiple, the even one when two are
  equally near, and gives an infinity when the result reaches \<open>2^1024\<close>.
\<close>

datatype double = Num real | PInf | MInf | NaN

definition pow2 :: "int \<Rightarrow> real" where
  "pow2 e = (if 0 \<le> e then 2 ^ nat e else 1 / 2 ^ nat (- e))"

function exponent_up :: "real \<Rightarrow> int" where
  "exponent_up x = (if 2 \<le> x then exponent_up (x / 2) + 1 else 0)"
  by pat_completeness auto
termination
proof (relation "measure (\<lambda>x. nat \<lceil>x\<rceil>)")
  show "wf (measure (\<lambda>x. nat \<lceil>x\<rceil>))"
    by simp
next
  fix x :: real
  assume "2 \<le> x"
  then have two: "2 \<le> \<lceil>x\<rceil>"
    by (simp add: le_ceiling_iff)
  then have "(2::real) \<le> of_int \<lceil>x\<rceil>"
    by linarith
  with le_of_int_ceiling [of x] have "x / 2 \<le> of_int \<lceil>x\<rceil> - 1"
    by linarith
  then have "\<lceil>x / 2\<rceil> < \<lceil>x\<rceil>"
    by (simp add: ceiling_less_iff)
  with two show "(x / 2, x) \<in> measure (\<lambda>x. nat \<lceil>x\<rceil>)"
    by simp
qed

function exponent_down :: "real \<Rightarrow> int" where
  "exponent_down x = (if 0 < x \<and> x < 1 then exponent_down (2 * x) - 1 else 0)"
  by pat_completeness auto
termination
proof (relation "measure (\<lambda>x. nat \<lceil>1 / x\<rceil>)")
  show "wf (measure (\<lambda>x. nat \<lceil>1 / x\<rceil>))"
    by simp
next
  fix x :: real
  assume x: "0 < x \<and> x < 1"
  define y where "y = 1 / x"
  from x have y: "1 < y"
    by (simp add: y_def)
  then have two: "2 \<le> \<lceil>y\<rceil>"
    by (simp add: le_ceiling_iff)
  then have "(2::real) \<le> of_int \<lceil>y\<rceil>"
    by linarith
  with le_of_int_ceiling [of y] have "y / 2 \<le> of_int \<lceil>y\<rceil> - 1"
    by linarith
  then have "\<lceil>y / 2\<rceil> < \<lceil>y\<rceil>"
    by (simp add: ceiling_less_iff)
  moreover have "1 / (2 * x) = y / 2"
    by (simp add: y_def)
  ultimately have "\<lceil>1 / (2 * x)\<rceil> < \<lceil>1 / x\<rceil>"
    by (simp only: y_def)
  with two x show "(2 * x, x) \<in> measure (\<lambda>x. nat \<lceil>1 / x\<rceil>)"
    by (simp add: y_def)
qed

definition exponent :: "real \<Rightarrow> int" where
  "exponent x = (if 1 \<le> \<bar>x\<bar> then exponent_up \<bar>x\<bar> else exponent_down \<bar>x\<bar>)"

definition nearest_even :: "int \<Rightarrow> real \<Rightarrow> int" where
  "nearest_even f x =
     (if x - of_int f < 1 / 2 then f
      else if 1 / 2 < x - of_int f then f + 1
      else if even f then f else f + 1)"

definition round_even :: "real \<Rightarrow> int" where
  "round_even x = nearest_even \<lfloor>x\<rfloor> x"

definition round_at :: "int \<Rightarrow> real \<Rightarrow> real" where
  "round_at q x = of_int (round_even (x / pow2 q)) * pow2 q"

definition in_range :: "real \<Rightarrow> double" where
  "in_range y =
     (if y \<noteq> 0 \<and> 1024 \<le> exponent y then (if 0 < y then PInf else MInf) else Num y)"

definition round_to_double :: "real \<Rightarrow> double" where
  "round_to_double x =
     (if x = 0 then Num 0 else in_range (round_at (max (exponent x - 52) (- 1074)) x))"

text \<open>
  An integer used with a float is converted first.  The operations round the exact result;
  a division by zero raises, as Python's does.
\<close>

definition double_of_nat :: "nat \<Rightarrow> double" where
  "double_of_nat n = round_to_double (real n)"

fun fl_neg :: "double \<Rightarrow> double" where
  "fl_neg (Num x) = Num (- x)"
| "fl_neg PInf = MInf"
| "fl_neg MInf = PInf"
| "fl_neg NaN = NaN"

fun fl_add :: "double \<Rightarrow> double \<Rightarrow> double" where
  "fl_add (Num x) (Num y) = round_to_double (x + y)"
| "fl_add NaN b = NaN"
| "fl_add a NaN = NaN"
| "fl_add PInf MInf = NaN"
| "fl_add MInf PInf = NaN"
| "fl_add PInf b = PInf"
| "fl_add MInf b = MInf"
| "fl_add a PInf = PInf"
| "fl_add a MInf = MInf"

definition fl_sub :: "double \<Rightarrow> double \<Rightarrow> double" where
  "fl_sub a b = fl_add a (fl_neg b)"

fun fl_mul :: "double \<Rightarrow> double \<Rightarrow> double" where
  "fl_mul (Num x) (Num y) = round_to_double (x * y)"
| "fl_mul NaN b = NaN"
| "fl_mul a NaN = NaN"
| "fl_mul (Num x) b = (if x = 0 then NaN else if 0 < x then b else fl_neg b)"
| "fl_mul a (Num y) = (if y = 0 then NaN else if 0 < y then a else fl_neg a)"
| "fl_mul PInf b = b"
| "fl_mul MInf b = fl_neg b"

fun fl_div :: "double \<Rightarrow> double \<Rightarrow> py_error + double" where
  "fl_div a (Num y) =
     (if y = 0 then Inl ZeroDivisionError
      else case a of
             Num x \<Rightarrow> Inr (round_to_double (x / y))
           | NaN \<Rightarrow> Inr NaN
           | _ \<Rightarrow> Inr (if 0 < y then a else fl_neg a))"
| "fl_div a NaN = Inr NaN"
| "fl_div (Num x) b = Inr (Num 0)"
| "fl_div a b = Inr NaN"

fun fl_abs :: "double \<Rightarrow> double" where
  "fl_abs (Num x) = Num \<bar>x\<bar>"
| "fl_abs NaN = NaN"
| "fl_abs a = PInf"

fun fl_less :: "double \<Rightarrow> double \<Rightarrow> bool" where
  "fl_less (Num x) (Num y) = (x < y)"
| "fl_less NaN b = False"
| "fl_less a NaN = False"
| "fl_less a MInf = False"
| "fl_less PInf b = False"
| "fl_less a b = True"

text \<open>
  A set as the interpreter holds it: its elements, each once (\<open>held_sets\<close>), in the order
  of its hash table, which for strings changes from one run of the interpreter to the
  next.  Two held corpora are the same corpus when they have the same keys in the same
  order and, key by key, the same elements.  \<^verbatim>\<open>x in s\<close> and \<^verbatim>\<open>len(s)\<close> are membership and
  length.
\<close>

type_synonym held_corpus = "(page \<times> page list) list"
type_synonym float_ranks = "(page \<times> double) list"

definition held_sets :: "held_corpus \<Rightarrow> bool" where
  "held_sets c = list_all (\<lambda>(p, links). distinct links) c"

definition same_corpus :: "held_corpus \<Rightarrow> held_corpus \<Rightarrow> bool" where
  "same_corpus c c' = list_all2 (\<lambda>(p, links) (p', links'). p = p' \<and> set links = set links') c c'"

definition corpus_of :: "held_corpus \<Rightarrow> corpus" where
  "corpus_of c = map (\<lambda>(p, links). (p, fset_of_list links)) c"

text \<open>
  The functions of lines 52 to 84 and 128 to 149 once more, over binary64 numbers.
  \<^verbatim>\<open>sum\<close> starts from the integer 0 and adds the terms from left to right, rounding each
  sum, as the builtin of CPython does up to version 3.11.
\<close>

definition transition_model_float :: "held_corpus \<Rightarrow> page \<Rightarrow> double \<Rightarrow> py_error + float_ranks" where
  "transition_model_float corpus page damping_factor =
     (case py_getitem corpus page of
        Inl e \<Rightarrow> Inl e
      | Inr links \<Rightarrow>
          let (linked_pages, num_linked_pages) =
                (if length links = 0 then (keys corpus, length corpus)
                 else (links, length links))
          in (case fl_div damping_factor (double_of_nat num_linked_pages) of
                Inl e \<Rightarrow> Inl e
              | Inr link_prob \<Rightarrow>
                  (case fl_div (fl_sub (Num 1) damping_factor) (double_of_nat (length corpus)) of
                     Inl e \<Rightarrow> Inl e
                   | Inr random_prob \<Rightarrow>
                       Inr (map (\<lambda>(p, _). (p, if p \<in> set linked_pages
                                               then fl_add link_prob random_prob
                                               else random_prob)) corpus))))"

definition initial_pagerank_float :: "held_corpus \<Rightarrow> py_error + float_ranks" where
  "initial_pagerank_float corpus =
     map_err (\<lambda>(page, _). case fl_div (Num 1) (double_of_nat (length corpus)) of
                              Inl e \<Rightarrow> Inl e
                            | Inr v \<Rightarrow> Inr (page, v)) corpus"

fun link_sum_float :: "float_ranks \<Rightarrow> page \<Rightarrow> held_corpus \<Rightarrow> double \<Rightarrow> py_error + double" where
  "link_sum_float old_pagerank page [] acc = Inr acc"
| "link_sum_float old_pagerank page ((i, links) # rest) acc =
     (if page \<in> set links then
        (case py_getitem old_pagerank i of
           Inl e \<Rightarrow> Inl e
         | Inr r \<Rightarrow>
             (case fl_div r (double_of_nat (length links)) of
                Inl e \<Rightarrow> Inl e
              | Inr q \<Rightarrow> link_sum_float old_pagerank page rest (fl_add acc q)))
      else link_sum_float old_pagerank page rest acc)"

definition new_rank_float :: "held_corpus \<Rightarrow> double \<Rightarrow> float_ranks \<Rightarrow> page \<Rightarrow> py_error + double" where
  "new_rank_float corpus damping_factor old_pagerank page =
     (case fl_div (fl_sub (Num 1) damping_factor) (double_of_nat (length corpus)) of
        Inl e \<Rightarrow> Inl e
      | Inr base \<Rightarrow>
          (case link_sum_float old_pagerank page corpus (Num 0) of
             Inl e \<Rightarrow> Inl e
           | Inr s \<Rightarrow> Inr (fl_add base (fl_mul damping_factor s))))"

definition update_round_float :: "held_corpus \<Rightarrow> double \<Rightarrow> float_ranks \<Rightarrow> py_error + float_ranks" where
  "update_round_float corpus damping_factor pagerank =
     (let old_pagerank = pagerank
      in map_err (\<lambda>(page, _). case new_rank_float corpus damping_factor old_pagerank page of
                                 Inl e \<Rightarrow> Inl e
                               | Inr v \<Rightarrow> Inr (page, v)) pagerank)"

fun converged_float :: "float_ranks \<Rightarrow> float_ranks \<Rightarrow> page list \<Rightarrow> py_error + bool" where
  "converged_float old_pagerank pagerank [] = Inr True"
| "converged_float old_pagerank pagerank (page # rest) =
     (case py_getitem old_pagerank page of
        Inl e \<Rightarrow> Inl e
      | Inr u \<Rightarrow>
          (case py_getitem pagerank page of
             Inl e \<Rightarrow> Inl e
           | Inr v \<Rightarrow>
               if fl_less (fl_abs (fl_sub u v)) (round_to_double (1 / 1000))
               then converged_float old_pagerank pagerank rest
               else Inr False))"

partial_function (option) iterate_loop_float ::
  "held_corpus \<Rightarrow> double \<Rightarrow> float_ranks \<Rightarrow> (py_error + float_ranks) option" where
  "iterate_loop_float corpus damping_factor pagerank =
     (case update_round_float corpus damping_factor pagerank of
        Inl e \<Rightarrow> Some (Inl e)
      | Inr pagerank' \<Rightarrow>
          (case converged_float pagerank pagerank' (keys pagerank') of
             Inl e \<Rightarrow> Some (Inl e)
           | Inr stop \<Rightarrow>
               if stop then Some (Inr pagerank')
               else iterate_loop_float corpus damping_factor pagerank'))"

definition iterate_pagerank_float :: "held_corpus \<Rightarrow> double \<Rightarrow> (py_error + float_ranks) option" where
  "iterate_pagerank_float corpus damping_factor =
     (case initial_pagerank_float corpus of
        Inl e \<Rightarrow> Some (Inl e)
      | Inr pagerank \<Rightarrow> iterate_loop_float corpus damping_factor pagerank)"

declare iterate_loop_float.simps [code]

text \<open>
  Three corpora.  In \<open>five_pages\<close> the page \<open>e\<close> is a sink.  \<open>held_star\<close> is the corpus
  \<open>star\<close>.  In \<open>two_sides\<close> each of three pages links to each of four others, and back;
  \<open>two_sides_start\<close> is its first table and \<open>two_sides_next\<close> its table after one round
  with the damping factor \<open>1 - 2^-53\<close>.
\<close>

definition five_pages :: held_corpus where
  "five_pages = [(''a'', [''b'']), (''b'', [''a'']), (''c'', [''a'']), (''d'', [''a'']), (''e'', [])]"

definition held_star :: held_corpus where
  "held_star = [(''a'', [''b'', ''c'']), (''b'', [''a'']), (''c'', [''a''])]"

definition two_sides :: held_corpus where
  "two_sides =
     [(''a0'', [''b0'', ''b1'', ''b2'', ''b3'']), (''a1'', [''b0'', ''b1'', ''b2'', ''b3'']),
      (''a2'', [''b0'', ''b1'', ''b2'', ''b3'']),
      (''b0'', [''a0'', ''a1'', ''a2'']), (''b1'', [''a0'', ''a1'', ''a2'']),
      (''b2'', [''a0'', ''a1'', ''a2'']), (''b3'', [''a0'', ''a1'', ''a2''])]"

definition two_sides_start :: float_ranks where
  "two_sides_start = map (\<lambda>p. (p, Num (2573485501354569 / 2 ^ 54))) (keys two_sides)"

definition two_sides_next :: float_ranks where
  "two_sides_next =
     [(''a0'', Num (857828500451523 / 2 ^ 52)), (''a1'', Num (857828500451523 / 2 ^ 52)),
      (''a2'', Num (857828500451523 / 2 ^ 52)),
      (''b0'', Num (7720456504063707 / 2 ^ 56)), (''b1'', Num (7720456504063707 / 2 ^ 56)),
      (''b2'', Num (7720456504063707 / 2 ^ 56)), (''b3'', Num (7720456504063707 / 2 ^ 56))]"

section \<open>Rounding is to the nearest number\<close>

text \<open>
  The equations of \<open>exponent_up\<close> and \<open>exponent_down\<close> call themselves, so they are used
  only where a number is evaluated.
\<close>

declare exponent_up.simps [simp del] exponent_down.simps [simp del]

lemmas float_evaluation = round_to_double_def in_range_def round_at_def exponent_def
  exponent_up.simps exponent_down.simps round_even_def nearest_even_def pow2_def
  double_of_nat_def fl_sub_def

text \<open>
  \<open>round_even\<close> is within a half of its argument, \<open>exponent\<close> is the exponent of the
  binary representation, and \<open>round_at q\<close> moves a number by at most half a unit \<open>2^q\<close>.
\<close>

lemma round_even_nearest: "\<bar>of_int (round_even z) - z\<bar> \<le> 1 / 2"
proof -
  have "of_int \<lfloor>z\<rfloor> \<le> z" and "z < of_int \<lfloor>z\<rfloor> + 1"
    by linarith+
  then show ?thesis
    unfolding round_even_def nearest_even_def by (simp split: if_splits) linarith?
qed

lemma pow2_pos: "0 < pow2 e"
  by (simp add: pow2_def)

lemma pow2_double: "pow2 (e + 1) = 2 * pow2 e"
proof (cases "0 \<le> e")
  case True
  then show ?thesis
    by (simp add: pow2_def nat_add_distrib)
next
  case False
  then have "nat (- e) = Suc (nat (- e - 1))"
    by simp
  then have "(2::real) ^ nat (- e) = 2 * 2 ^ nat (- e - 1)"
    by simp
  with False show ?thesis
    by (simp add: pow2_def)
qed


lemma exponent_up_bounds:
  "1 \<le> x \<Longrightarrow> 0 \<le> exponent_up x \<and> pow2 (exponent_up x) \<le> x \<and> x < pow2 (exponent_up x + 1)"
proof (induction x rule: exponent_up.induct)
  case (1 x)
  show ?case
  proof (cases "2 \<le> x")
    case True
    then have "1 \<le> x / 2"
      by simp
    with 1(1) [OF True] have IH: "0 \<le> exponent_up (x / 2)" "pow2 (exponent_up (x / 2)) \<le> x / 2"
      "x / 2 < pow2 (exponent_up (x / 2) + 1)"
      by simp_all
    have eq: "exponent_up x = exponent_up (x / 2) + 1"
      using True by (subst exponent_up.simps) simp
    have "pow2 (exponent_up (x / 2) + 1) \<le> x"
      using IH(2) by (simp add: pow2_double)
    moreover have "x < pow2 (exponent_up (x / 2) + 1 + 1)"
      using IH(3) pow2_double [of "exponent_up (x / 2) + 1"] by simp
    ultimately show ?thesis
      unfolding eq using IH(1) by simp
  next
    case False
    then have "exponent_up x = 0"
      by (subst exponent_up.simps) simp
    with False 1(2) show ?thesis
      by (simp add: pow2_def)
  qed
qed

lemma exponent_down_bounds:
  "0 < x \<Longrightarrow> x < 1 \<Longrightarrow> pow2 (exponent_down x) \<le> x \<and> x < pow2 (exponent_down x + 1)"
proof (induction x rule: exponent_down.induct)
  case (1 x)
  have eq: "exponent_down x = exponent_down (2 * x) - 1"
    using 1(2,3) by (subst exponent_down.simps) simp
  show ?case
  proof (cases "2 * x < 1")
    case True
    from 1(2) have "0 < 2 * x"
      by simp
    from 1(1) [OF _ this True] 1(2,3)
    have IH: "pow2 (exponent_down (2 * x)) \<le> 2 * x" "2 * x < pow2 (exponent_down (2 * x) + 1)"
      by simp_all
    have a: "pow2 (exponent_down (2 * x)) = 2 * pow2 (exponent_down (2 * x) - 1)"
      using pow2_double [of "exponent_down (2 * x) - 1"] by simp
    have b: "pow2 (exponent_down (2 * x) + 1) = 2 * pow2 (exponent_down (2 * x))"
      by (rule pow2_double)
    from IH a b show ?thesis
      unfolding eq by simp
  next
    case False
    then have "exponent_down (2 * x) = 0"
      by (subst exponent_down.simps) simp
    with False 1(3) show ?thesis
      unfolding eq by (simp add: pow2_def)
  qed
qed

lemma exponent_bounds:
  assumes "x \<noteq> 0"
  shows "pow2 (exponent x) \<le> \<bar>x\<bar> \<and> \<bar>x\<bar> < pow2 (exponent x + 1)"
proof (cases "1 \<le> \<bar>x\<bar>")
  case True
  with exponent_up_bounds [of "\<bar>x\<bar>"] show ?thesis
    by (simp add: exponent_def)
next
  case False
  with assms exponent_down_bounds [of "\<bar>x\<bar>"] show ?thesis
    by (simp add: exponent_def)
qed

lemma round_at_nearest: "\<bar>round_at q x - x\<bar> \<le> pow2 q / 2"
proof -
  have pos: "0 < pow2 q"
    by (rule pow2_pos)
  then have "round_at q x - x = (of_int (round_even (x / pow2 q)) - x / pow2 q) * pow2 q"
    by (simp add: round_at_def left_diff_distrib)
  then have "\<bar>round_at q x - x\<bar> = \<bar>of_int (round_even (x / pow2 q)) - x / pow2 q\<bar> * pow2 q"
    using pos by (simp add: abs_mult)
  also have "\<dots> \<le> 1 / 2 * pow2 q"
    using pos by (intro mult_right_mono round_even_nearest) simp
  finally show ?thesis
    by simp
qed

section \<open>The transition model is a probability distribution\<close>

lemma sum_list_indicator:
  assumes "distinct ks" and "fset L \<subseteq> set ks"
  shows "sum_list (map (\<lambda>p. if p |\<in>| L then a + b else (b::real)) ks)
         = real (fcard L) * a + real (length ks) * b"
proof -
  have "sum_list (map (\<lambda>p. if p |\<in>| L then a + b else b) ks)
        = (\<Sum>p\<in>set ks. if p |\<in>| L then a + b else b)"
    using assms(1) by (simp add: sum_list_distinct_conv_sum_set)
  also have "\<dots> = (\<Sum>p\<in>set ks. (if p \<in> fset L then a else 0) + b)"
    by (rule sum.cong) auto
  also have "\<dots> = (\<Sum>p\<in>set ks. if p \<in> fset L then a else 0) + real (card (set ks)) * b"
    by (simp add: sum.distrib)
  also have "(\<Sum>p\<in>set ks. if p \<in> fset L then a else 0) = (\<Sum>p\<in>set ks \<inter> fset L. a)"
    by (rule sum.inter_restrict [symmetric]) simp
  also have "set ks \<inter> fset L = fset L"
    using assms(2) by auto
  also have "(\<Sum>p\<in>fset L. a) = real (fcard L) * a"
    by (simp add: fcard.rep_eq)
  also have "card (set ks) = length ks"
    using assms(1) by (simp add: distinct_card)
  finally show ?thesis .
qed

lemma links_closedD:
  "links_closed c \<Longrightarrow> map_of c p = Some links \<Longrightarrow> fset links \<subseteq> set (keys c)"
  by (auto simp: links_closed_def list_all_iff dest!: map_of_SomeD)

text \<open>
  C4, as amended.  In exact arithmetic, on a page of the corpus whose link set is empty
  \<^verbatim>\<open>transition_model\<close> returns the uniform distribution: every page of the corpus, in the
  corpus's order, with exactly the value \<open>1 / |corpus|\<close>, whatever the damping factor.
\<close>

theorem transition_model_sink_uniform:
  assumes "map_of corpus page = Some {||}"
  shows "transition_model corpus page d
         = Inr (map (\<lambda>(p, _). (p, 1 / real (length corpus))) corpus)"
proof -
  have ne: "real (length corpus) \<noteq> 0"
    using assms by (cases corpus) auto
  have mem: "\<And>p v. (p, v) \<in> set corpus \<Longrightarrow> p |\<in>| fset_of_list (keys corpus)"
    by (auto simp: keys_def fset_of_list.rep_eq intro: rev_image_eqI)
  have "d / real (length corpus) + (1 - d) / real (length corpus) = 1 / real (length corpus)"
    by (simp add: add_divide_distrib [symmetric])
  then show ?thesis
    using assms ne mem
    by (auto simp: transition_model_def py_getitem_def py_div_def)
qed

theorem transition_model_sink_uniform_witness:
  "map_of [(''a'', {|''b''|}), (''b'', {||})] ''b'' = Some {||}
   \<and> transition_model [(''a'', {|''b''|}), (''b'', {||})] ''b'' (85 / 100)
       = Inr [(''a'', 1 / 2), (''b'', 1 / 2)]"
proof -
  have h: "map_of [(''a'', {|''b''|}), (''b'', {||})] ''b'' = Some {||}"
    by simp
  show ?thesis
    using h transition_model_sink_uniform [OF h, of "85 / 100"] by simp
qed

text \<open>
  C4, as stated, fails in the arithmetic of the program.  On the five pages, from the sink
  \<open>e\<close> and with the damping factor 0.85, every page receives the binary64 number
  \<open>7205759403792793 / 2^55\<close>, which Python prints as 0.19999999999999998; the float
  \<^verbatim>\<open>1 / len(corpus)\<close> is the next one, \<open>7205759403792794 / 2^55\<close>, printed as 0.2.
\<close>

theorem transition_model_float_sink_value:
  "py_getitem five_pages ''e'' = Inr []
   \<and> transition_model_float five_pages ''e'' (round_to_double (85 / 100))
       = Inr [(''a'', Num (7205759403792793 / 2 ^ 55)), (''b'', Num (7205759403792793 / 2 ^ 55)),
              (''c'', Num (7205759403792793 / 2 ^ 55)), (''d'', Num (7205759403792793 / 2 ^ 55)),
              (''e'', Num (7205759403792793 / 2 ^ 55))]
   \<and> fl_div (Num 1) (double_of_nat (length five_pages)) = Inr (Num (7205759403792794 / 2 ^ 55))"
  by (simp add: transition_model_float_def five_pages_def py_getitem_def keys_def float_evaluation)

text \<open>
  In the arithmetic of the program the pages still receive one and the same value from a
  sink, the rounded sum of \<^verbatim>\<open>link_prob\<close> and \<^verbatim>\<open>random_prob\<close>.
\<close>

lemma transition_model_float_sink_one_value:
  assumes "py_getitem corpus page = Inr []"
    and "transition_model_float corpus page d = Inr table"
  shows "\<exists>v. table = map (\<lambda>(p, _). (p, v)) corpus"
proof -
  from assms obtain link_prob random_prob
    where "table = map (\<lambda>(p, _). (p, if p \<in> set (keys corpus) then fl_add link_prob random_prob
                                       else random_prob)) corpus"
    by (auto simp: transition_model_float_def split: sum.splits)
  moreover have "p \<in> set (keys corpus)" if "(p, links) \<in> set corpus" for p links
    using that by (auto simp: keys_def intro: rev_image_eqI)
  ultimately have "table = map (\<lambda>(p, _). (p, fl_add link_prob random_prob)) corpus"
    by auto
  then show ?thesis
    by blast
qed


text \<open>
  C1.  When the keys of the corpus are distinct, every link set is a subset of the keys
  and the page is a key, \<^verbatim>\<open>transition_model\<close> returns a table (it raises nothing) whose
  keys are exactly the corpus's pages, in the corpus's order, and whose values sum to 1;
  this holds for every damping factor, so for those in (0,1).  Numbers are exact reals.
\<close>

theorem transition_model_distribution:
  assumes "distinct (keys corpus)" and "links_closed corpus" and "page \<in> set (keys corpus)"
  shows "\<exists>dist. transition_model corpus page d = Inr dist
           \<and> keys dist = keys corpus \<and> sum_list (map snd dist) = 1"
proof -
  from assms(3) obtain links where links: "map_of corpus page = Some links"
    by (auto simp: keys_def dest!: weak_map_of_SomeI)
  have ne: "real (length corpus) \<noteq> 0"
    using assms(3) by (cases corpus) (auto simp: keys_def)
  define L where "L = (if fcard links = 0 then fset_of_list (keys corpus) else links)"
  define n where "n = (if fcard links = 0 then length corpus else fcard links)"
  have sub: "fset L \<subseteq> set (keys corpus)"
    using links_closedD[OF assms(2) links] by (simp add: L_def fset_of_list.rep_eq)
  have n: "n = fcard L"
    using distinct_card [OF assms(1)]
    by (simp add: n_def L_def fcard.rep_eq fset_of_list.rep_eq keys_def)
  have n0: "real n \<noteq> 0"
    using ne by (auto simp: n_def)
  let ?dist = "map (\<lambda>(p, _). (p, if p |\<in>| L then d / real n + (1 - d) / real (length corpus)
                                    else (1 - d) / real (length corpus))) corpus"
  have tm: "transition_model corpus page d = Inr ?dist"
  proof (cases "links = {||}")
    case True
    then have eqs: "L = fset_of_list (keys corpus)" "n = length corpus"
      by (simp_all add: L_def n_def)
    from True links ne show ?thesis
      unfolding eqs by (simp add: transition_model_def py_getitem_def py_div_def)
  next
    case False
    then have eqs: "L = links" "n = fcard links"
      by (simp_all add: L_def n_def)
    from False links ne show ?thesis
      unfolding eqs by (simp add: transition_model_def py_getitem_def py_div_def)
  qed
  have k: "keys ?dist = keys corpus"
    by (simp add: keys_def case_prod_unfold comp_def)
  have "map snd ?dist = map (\<lambda>p. if p |\<in>| L then d / real n + (1 - d) / real (length corpus)
                                    else (1 - d) / real (length corpus)) (keys corpus)"
    by (simp add: keys_def case_prod_unfold comp_def)
  then have "sum_list (map snd ?dist)
             = real (fcard L) * (d / real n)
               + real (length (keys corpus)) * ((1 - d) / real (length corpus))"
    using sum_list_indicator[OF assms(1) sub] by simp
  also have "\<dots> = 1"
    using n n0 ne by (simp add: keys_def)
  finally show ?thesis
    using tm k by blast
qed

theorem transition_model_distribution_witness:
  "distinct (keys [(''a'', {|''b''|}), (''b'', {||})])
   \<and> links_closed [(''a'', {|''b''|}), (''b'', {||})]
   \<and> ''a'' \<in> set (keys [(''a'', {|''b''|}), (''b'', {||})])
   \<and> (\<exists>dist. transition_model [(''a'', {|''b''|}), (''b'', {||})] ''a'' (85 / 100) = Inr dist
         \<and> keys dist = [''a'', ''b''] \<and> sum_list (map snd dist) = 1)"
proof -
  have h1: "distinct (keys [(''a'', {|''b''|}), (''b'', {||})])"
    by (simp add: keys_def)
  have h2: "links_closed [(''a'', {|''b''|}), (''b'', {||})]"
    by (simp add: links_closed_def keys_def)
  have h3: "''a'' \<in> set (keys [(''a'', {|''b''|}), (''b'', {||})])"
    by (simp add: keys_def)
  show ?thesis
    using h1 h2 h3 transition_model_distribution [OF h1 h2 h3, of "85 / 100"]
    by (simp add: keys_def)
qed

section \<open>The update sum never divides by zero\<close>

text \<open>
  C10.  The sum of line 143 never raises \<^verbatim>\<open>ZeroDivisionError\<close>, whatever the corpus, the
  old table and the page: a division by \<^verbatim>\<open>len(corpus[i])\<close> is reached only under the guard
  \<^verbatim>\<open>page in corpus[i]\<close>, and a set with a member has at least one element.  A page with no
  link never passes the guard.
\<close>

theorem link_sum_no_zero_division:
  "link_sum old_pagerank page corpus acc \<noteq> Inl ZeroDivisionError"
proof (induction corpus arbitrary: acc)
  case Nil
  show ?case by simp
next
  case (Cons entry rest)
  obtain i links where entry: "entry = (i, links)"
    by (cases entry)
  show ?case
  proof (cases "page |\<in>| links")
    case False
    with Cons entry show ?thesis by simp
  next
    case True
    then have "real (fcard links) \<noteq> 0"
      by auto
    with True Cons entry show ?thesis
      by (simp add: py_div_def py_getitem_def split: option.splits)
  qed
qed

section \<open>The usage error\<close>

text \<open>
  C9.  When \<^verbatim>\<open>sys.argv\<close> does not hold exactly the program name and one argument,
  \<^verbatim>\<open>main\<close> ends through \<^verbatim>\<open>sys.exit\<close> with the usage message and a non-zero exit status,
  having printed nothing; the result does not depend on the directory, the link search
  or the libraries, none of which is consulted.
\<close>

theorem main_usage_error:
  assumes "length argv \<noteq> 2"
  shows "main listdir findall lib argv
           = Some ([], SystemExit ''Usage: python pagerank.py corpus'')
         \<and> exit_status (SystemExit ''Usage: python pagerank.py corpus'') \<noteq> 0"
  using assms by (simp add: main_def)

theorem main_usage_error_witness:
  "length [''pagerank.py''] \<noteq> 2
   \<and> main (\<lambda>d. None) (\<lambda>t. [])
        \<lparr>chain_sample = (\<lambda>t n. []), value_counts = (\<lambda>xs. []), format_4f = (\<lambda>v. [])\<rparr>
        [''pagerank.py'']
       = Some ([], SystemExit ''Usage: python pagerank.py corpus'')"
proof -
  have h: "length [''pagerank.py''] \<noteq> 2"
    by simp
  show ?thesis
    using h main_usage_error [OF h] by simp
qed

section \<open>The corpus built by the loader\<close>

lemma set_update_subset: "set (AList.update k v al) \<subseteq> insert (k, v) (set al)"
  by (induction al) auto

lemma crawl_extract_invariant:
  assumes "crawl_extract findall entries pages = Inr c"
    and "distinct (keys pages)" and "no_self_links pages"
  shows "distinct (keys c) \<and> no_self_links c"
  using assms
proof (induction entries arbitrary: pages)
  case Nil
  then show ?case by simp
next
  case (Cons entry rest)
  obtain filename fl where entry: "entry = (filename, fl)"
    by (cases entry)
  show ?case
  proof (cases "endswith filename ''.html''")
    case False
    with Cons entry show ?thesis by simp
  next
    case True
    with Cons.prems(1) entry obtain contents where fl: "fl = Some contents"
      by (cases fl) auto
    let ?pages = "AList.update filename (fset_of_list (findall contents) |-| {|filename|}) pages"
    have run: "crawl_extract findall rest ?pages = Inr c"
      using Cons.prems(1) entry True fl by simp
    have d: "distinct (keys ?pages)"
      using Cons.prems(2) by (simp add: keys_def distinct_update)
    have n: "no_self_links ?pages"
      using Cons.prems(3) set_update_subset [of filename _ pages]
      by (fastforce simp: no_self_links_def list_all_iff)
    from Cons.IH [OF run d n] show ?thesis .
  qed
qed

lemma keys_crawl_restrict: "keys (crawl_restrict pages) = keys pages"
  by (simp add: crawl_restrict_def keys_def case_prod_unfold comp_def)

lemma links_closed_crawl_restrict: "links_closed (crawl_restrict pages)"
  unfolding links_closed_def keys_crawl_restrict list_all_iff
  by (auto simp: crawl_restrict_def)

lemma no_self_links_crawl_restrict:
  "no_self_links pages \<Longrightarrow> no_self_links (crawl_restrict pages)"
  by (auto simp: no_self_links_def crawl_restrict_def list_all_iff)

text \<open>
  C8.  Whatever the directory holds and whatever links the search finds, a corpus that
  \<^verbatim>\<open>crawl\<close> returns has each key once, every link set within the key set, and no page in
  its own link set.
\<close>

theorem crawl_corpus_invariants:
  assumes "crawl findall entries = Inr corpus"
  shows "distinct (keys corpus) \<and> links_closed corpus \<and> no_self_links corpus"
proof -
  from assms obtain pages where pages: "crawl_extract findall entries [] = Inr pages"
    and corpus: "corpus = crawl_restrict pages"
    by (auto simp: crawl_def split: sum.splits)
  have "distinct (keys pages) \<and> no_self_links pages"
    by (rule crawl_extract_invariant [OF pages]) (simp_all add: keys_def no_self_links_def)
  then show ?thesis
    unfolding corpus
    by (simp add: keys_crawl_restrict links_closed_crawl_restrict no_self_links_crawl_restrict)
qed

theorem crawl_corpus_invariants_witness:
  "crawl (\<lambda>t. if t = ''A'' then [''b.html'', ''a.html'', ''x.html''] else [])
     [(''a.html'', Some ''A''), (''b.html'', Some ''B''), (''notes.txt'', None)]
   = Inr [(''a.html'', {|''b.html''|}), (''b.html'', {||})]
   \<and> distinct (keys [(''a.html'', {|''b.html''|}), (''b.html'', {||})])
   \<and> links_closed [(''a.html'', {|''b.html''|}), (''b.html'', {||})]
   \<and> no_self_links [(''a.html'', {|''b.html''|}), (''b.html'', {||})]"
proof -
  have h: "crawl (\<lambda>t. if t = ''A'' then [''b.html'', ''a.html'', ''x.html''] else [])
     [(''a.html'', Some ''A''), (''b.html'', Some ''B''), (''notes.txt'', None)]
   = Inr [(''a.html'', {|''b.html''|}), (''b.html'', {||})]"
    by code_simp
  show ?thesis
    using h crawl_corpus_invariants [OF h] by simp
qed

section \<open>The loop as a function and as a relation\<close>

text \<open>The function \<open>iterate_loop\<close> returns exactly what the runs of the loop return.\<close>

lemma loop_returns_iterate_loop:
  "loop_returns c d pagerank r \<Longrightarrow> iterate_loop c d pagerank = Some r"
  by (induction rule: loop_returns.induct) (subst iterate_loop.simps, simp)+

lemma iterate_loop_loop_returns:
  assumes "iterate_loop corpus d0 pagerank0 = Some r0"
  shows "loop_returns corpus d0 pagerank0 r0"
proof (rule iterate_loop.raw_induct [where P = loop_returns, OF _ assms])
  fix f c d pagerank r
  assume IH: "\<And>c d p y. f c d p = Some y \<Longrightarrow> loop_returns c d p y"
    and eq: "(case update_round c d pagerank of
                Inl e \<Rightarrow> Some (Inl e)
              | Inr pagerank' \<Rightarrow>
                  (case converged pagerank pagerank' (keys pagerank') of
                     Inl e \<Rightarrow> Some (Inl e)
                   | Inr stop \<Rightarrow> if stop then Some (Inr pagerank') else f c d pagerank'))
             = Some r"
  show "loop_returns c d pagerank r"
  proof (cases "update_round c d pagerank")
    case (Inl e)
    with eq show ?thesis
      by (auto intro: loop_returns.round_raises)
  next
    case (Inr pagerank')
    note round = this
    show ?thesis
    proof (cases "converged pagerank pagerank' (keys pagerank')")
      case (Inl e)
      with eq round show ?thesis
        by (auto intro: loop_returns.test_raises)
    next
      case (Inr stop)
      show ?thesis
      proof (cases stop)
        case True
        with eq round Inr show ?thesis
          by (auto intro: loop_returns.leave)
      next
        case False
        with eq round Inr have "f c d pagerank' = Some r"
          by simp
        then have "loop_returns c d pagerank' r"
          by (rule IH)
        with round Inr False show ?thesis
          by (auto intro: loop_returns.again)
      qed
    qed
  qed
qed

text \<open>
  A run on the corpus where \<open>a\<close> links to \<open>b\<close> and \<open>b\<close> has no link, with damping factor
  0.85: the third round changes nothing and the loop leaves.
\<close>

lemma sink_run_rounds:
  "update_round [(''a'', {|''b''|}), (''b'', {||})] (85 / 100) [(''a'', 1 / 2), (''b'', 1 / 2)]
   = Inr [(''a'', 3 / 40), (''b'', 1 / 2)]"
  "update_round [(''a'', {|''b''|}), (''b'', {||})] (85 / 100) [(''a'', 3 / 40), (''b'', 1 / 2)]
   = Inr [(''a'', 3 / 40), (''b'', 111 / 800)]"
  "update_round [(''a'', {|''b''|}), (''b'', {||})] (85 / 100) [(''a'', 3 / 40), (''b'', 111 / 800)]
   = Inr [(''a'', 3 / 40), (''b'', 111 / 800)]"
  by code_simp+

lemma sink_run_tests:
  "converged [(''a'', 1 / 2), (''b'', 1 / 2)] [(''a'', 3 / 40), (''b'', 1 / 2)]
     (keys [(''a'', 3 / 40), (''b'', 1 / (2::real))]) = Inr False"
  "converged [(''a'', 3 / 40), (''b'', 1 / 2)] [(''a'', 3 / 40), (''b'', 111 / 800)]
     (keys [(''a'', 3 / 40), (''b'', 111 / (800::real))]) = Inr False"
  "converged [(''a'', 3 / 40), (''b'', 111 / 800)] [(''a'', 3 / 40), (''b'', 111 / 800)]
     (keys [(''a'', 3 / 40), (''b'', 111 / (800::real))]) = Inr True"
  by code_simp+

lemma sink_run:
  "loop_returns [(''a'', {|''b''|}), (''b'', {||})] (85 / 100) [(''a'', 1 / 2), (''b'', 1 / 2)]
     (Inr [(''a'', 3 / 40), (''b'', 111 / 800)])"
  by (rule loop_returns.again [OF sink_run_rounds(1) sink_run_tests(1)],
      rule loop_returns.again [OF sink_run_rounds(2) sink_run_tests(2)],
      rule loop_returns.leave [OF sink_run_rounds(3) sink_run_tests(3)])

lemma sink_run_initial:
  "initial_pagerank [(''a'', {|''b''|}), (''b'', {||})] = Inr [(''a'', 1 / 2), (''b'', 1 / 2)]"
  by code_simp

section \<open>Two calls return the same table\<close>

text \<open>
  \<^verbatim>\<open>iterate_pagerank\<close> draws no random number and never walks through a link set: it asks
  a set only whether it has a page and how many elements it has.  So the one thing that can
  differ between two calls with the same corpus, the order in which the interpreter holds
  the elements of the sets, does not reach the result.  The order of the keys is part of
  the corpus: the sums of line 143 are taken in that order.
\<close>

lemma same_corpus_lengths:
  "same_corpus c c' \<Longrightarrow> length c = length c'"
  by (simp add: same_corpus_def list_all2_lengthD)

lemma same_corpus_keys:
  "same_corpus c c' \<Longrightarrow> keys c = keys c'"
  unfolding same_corpus_def keys_def
  by (induction rule: list_all2_induct) auto

lemma held_size:
  assumes "distinct xs" and "distinct ys" and "set xs = set ys"
  shows "length xs = length ys"
  using assms by (metis distinct_card)

lemma link_sum_float_same:
  assumes "same_corpus c c'" and "held_sets c" and "held_sets c'"
  shows "link_sum_float old page c acc = link_sum_float old page c' acc"
  using assms unfolding same_corpus_def
proof (induction arbitrary: acc rule: list_all2_induct)
  case Nil
  show ?case by simp
next
  case (Cons entry rest entry' rest')
  obtain i links where entry: "entry = (i, links)"
    by (cases entry)
  obtain i' links' where entry': "entry' = (i', links')"
    by (cases entry')
  from Cons.hyps(1) entry entry' have i: "i' = i" and s: "set links = set links'"
    by simp_all
  from Cons.prems entry entry' have d: "distinct links" "distinct links'"
    and h: "held_sets rest" "held_sets rest'"
    by (simp_all add: held_sets_def)
  have n: "length links = length links'"
    by (rule held_size [OF d s])
  have IH: "link_sum_float old page rest a = link_sum_float old page rest' a" for a
    by (rule Cons.IH [OF h])
  show ?case
    unfolding entry entry' i by (simp add: s n IH split: sum.splits)
qed

lemma new_rank_float_same:
  assumes "same_corpus c c'" and "held_sets c" and "held_sets c'"
  shows "new_rank_float c d old page = new_rank_float c' d old page"
  by (simp add: new_rank_float_def same_corpus_lengths [OF assms(1)] link_sum_float_same [OF assms]
      cong: sum.case_cong)

lemma update_round_float_same:
  assumes "same_corpus c c'" and "held_sets c" and "held_sets c'"
  shows "update_round_float c d t = update_round_float c' d t"
  by (simp add: update_round_float_def new_rank_float_same [OF assms])

lemma map_err_keys: "map_err (\<lambda>(page, _). g page) c = map_err g (keys c)"
  by (induction c) (auto simp: keys_def split: sum.splits)

lemma initial_pagerank_float_same:
  assumes "same_corpus c c'"
  shows "initial_pagerank_float c = initial_pagerank_float c'"
  by (simp add: initial_pagerank_float_def map_err_keys same_corpus_lengths [OF assms]
      same_corpus_keys [OF assms])

lemma iterate_loop_float_transfer:
  assumes same: "\<And>t. update_round_float c d t = update_round_float c' d t"
    and run: "iterate_loop_float c d t = Some r"
  shows "iterate_loop_float c' d t = Some r"
proof -
  have "c0 = c \<and> d0 = d \<longrightarrow> iterate_loop_float c' d t0 = Some r0"
    if "iterate_loop_float c0 d0 t0 = Some r0" for c0 d0 t0 r0
    using that
  proof (rule iterate_loop_float.raw_induct
      [where P = "\<lambda>c0 d0 t0 r0. c0 = c \<and> d0 = d \<longrightarrow> iterate_loop_float c' d t0 = Some r0", rotated])
    fix f c0 d0 t0 r0
    assume IH: "\<And>c0 d0 t0 r0. f c0 d0 t0 = Some r0
                  \<Longrightarrow> c0 = c \<and> d0 = d \<longrightarrow> iterate_loop_float c' d t0 = Some r0"
      and eq: "(case update_round_float c0 d0 t0 of
                  Inl e \<Rightarrow> Some (Inl e)
                | Inr pagerank' \<Rightarrow>
                    (case converged_float t0 pagerank' (keys pagerank') of
                       Inl e \<Rightarrow> Some (Inl e)
                     | Inr stop \<Rightarrow> if stop then Some (Inr pagerank') else f c0 d0 pagerank'))
               = Some r0"
    show "c0 = c \<and> d0 = d \<longrightarrow> iterate_loop_float c' d t0 = Some r0"
    proof (intro impI, elim conjE)
      assume c0: "c0 = c" and d0: "d0 = d"
      have same0: "update_round_float c' d t0 = update_round_float c d t0"
        by (simp add: same)
      show "iterate_loop_float c' d t0 = Some r0"
      proof (cases "update_round_float c d t0")
        case (Inl e)
        with eq c0 d0 have "r0 = Inl e"
          by simp
        with Inl same0 show ?thesis
          by (subst iterate_loop_float.simps) simp
      next
        case (Inr t')
        note round = this
        show ?thesis
        proof (cases "converged_float t0 t' (keys t')")
          case (Inl e)
          with eq c0 d0 round have "r0 = Inl e"
            by simp
          with Inl round same0 show ?thesis
            by (subst iterate_loop_float.simps) simp
        next
          case (Inr stop)
          show ?thesis
          proof (cases stop)
            case True
            with eq c0 d0 round Inr have "r0 = Inr t'"
              by simp
            with True Inr round same0 show ?thesis
              by (subst iterate_loop_float.simps) simp
          next
            case False
            with eq c0 d0 round Inr have "f c d t' = Some r0"
              by simp
            from IH [OF this] have "iterate_loop_float c' d t' = Some r0"
              by simp
            with False round Inr same0 show ?thesis
              by (subst iterate_loop_float.simps) simp
          qed
        qed
      qed
    qed
  qed
  from this [OF run] show ?thesis
    by simp
qed

text \<open>
  C6.  \<^verbatim>\<open>iterate_pagerank\<close> is deterministic: two calls with the same corpus, whatever the
  order in which its sets are held, and the same damping factor have the same outcome in
  the arithmetic of the program: the same rank table bit for bit, the same exception, or
  no return from either.
\<close>

theorem iterate_pagerank_float_deterministic:
  assumes "held_sets c" and "held_sets c'" and "same_corpus c c'"
  shows "iterate_pagerank_float c d = iterate_pagerank_float c' d"
proof -
  have fwd: "update_round_float c d t = update_round_float c' d t" for t
    by (rule update_round_float_same [OF assms(3) assms(1) assms(2)])
  have loops: "iterate_loop_float c d t = iterate_loop_float c' d t" for t
  proof (cases "iterate_loop_float c d t")
    case (Some r)
    with iterate_loop_float_transfer [of c d c' t r] fwd show ?thesis
      by simp
  next
    case None
    show ?thesis
    proof (cases "iterate_loop_float c' d t")
      case None
      with \<open>iterate_loop_float c d t = None\<close> show ?thesis
        by simp
    next
      case (Some r)
      with iterate_loop_float_transfer [of c' d c t r] fwd have "iterate_loop_float c d t = Some r"
        by simp
      with None show ?thesis
        by simp
    qed
  qed
  show ?thesis
    by (simp add: iterate_pagerank_float_def initial_pagerank_float_same [OF assms(3)] loops
        cong: sum.case_cong)
qed


theorem iterate_pagerank_float_deterministic_witness:
  "held_sets held_star
   \<and> held_sets [(''a'', [''c'', ''b'']), (''b'', [''a'']), (''c'', [''a''])]
   \<and> same_corpus held_star [(''a'', [''c'', ''b'']), (''b'', [''a'']), (''c'', [''a''])]
   \<and> iterate_pagerank_float held_star (round_to_double (85 / 100))
       = iterate_pagerank_float [(''a'', [''c'', ''b'']), (''b'', [''a'']), (''c'', [''a''])]
           (round_to_double (85 / 100))"
proof -
  have h1: "held_sets held_star"
    by (simp add: held_sets_def held_star_def)
  have h2: "held_sets [(''a'', [''c'', ''b'']), (''b'', [''a'']), (''c'', [''a''])]"
    by (simp add: held_sets_def)
  have h3: "same_corpus held_star [(''a'', [''c'', ''b'']), (''b'', [''a'']), (''c'', [''a''])]"
    by (auto simp: same_corpus_def held_star_def)
  from h1 h2 h3 iterate_pagerank_float_deterministic [OF h1 h2 h3, of "round_to_double (85 / 100)"]
  show ?thesis
    by blast
qed

section \<open>The update rule and sink pages\<close>

text \<open>
  Without exceptions the checked functions compute \<open>rank_update\<close> and \<open>next_table\<close>:
  a page with no link never passes the guard of line 143, so it gives nothing to any page.
\<close>

lemma map_err_Inr:
  "(\<And>x. x \<in> set xs \<Longrightarrow> f x = Inr (g x)) \<Longrightarrow> map_err f xs = Inr (map g xs)"
  by (induction xs) simp_all

lemma py_getitem_rank_of:
  "k \<in> set (keys t) \<Longrightarrow> py_getitem t k = Inr (rank_of t k)"
  by (auto simp: py_getitem_def rank_of_def keys_def map_of_eq_None_iff split: option.splits)

lemma link_sum_value:
  "set (keys c) \<subseteq> set (keys old) \<Longrightarrow>
   link_sum old p c acc
   = Inr (acc + (\<Sum>(i, links)\<leftarrow>c. if p |\<in>| links then rank_of old i / real (fcard links) else 0))"
proof (induction c arbitrary: acc)
  case Nil
  show ?case by simp
next
  case (Cons entry rest)
  obtain i links where entry: "entry = (i, links)"
    by (cases entry)
  from Cons.prems entry have i: "i \<in> set (keys old)" and rest: "set (keys rest) \<subseteq> set (keys old)"
    by (simp_all add: keys_def)
  show ?case
  proof (cases "p |\<in>| links")
    case False
    with Cons.IH [OF rest] entry show ?thesis by simp
  next
    case True
    then have "real (fcard links) \<noteq> 0"
      by auto
    with True Cons.IH [OF rest] entry py_getitem_rank_of [OF i] show ?thesis
      by (simp add: py_div_def)
  qed
qed

lemma new_rank_value:
  assumes "c \<noteq> []" and "set (keys c) \<subseteq> set (keys old)"
  shows "new_rank c d old p = Inr (rank_update c d (rank_of old) p)"
  using assms(1) link_sum_value [OF assms(2), of p 0]
  by (simp add: new_rank_def rank_update_def py_div_def)

lemma update_round_value:
  assumes "keys pagerank = keys c"
  shows "update_round c d pagerank = Inr (next_table c d pagerank)"
proof (cases "c = []")
  case True
  with assms have "pagerank = []"
    by (simp add: keys_def)
  then show ?thesis
    by (simp add: update_round_def next_table_def)
next
  case False
  have "set (keys c) \<subseteq> set (keys pagerank)"
    using assms by simp
  from new_rank_value [OF False this] show ?thesis
    unfolding update_round_def next_table_def Let_def
    by (intro map_err_Inr) (simp add: case_prod_unfold)
qed

lemma keys_next_table: "keys (next_table c d pagerank) = keys pagerank"
  by (simp add: next_table_def keys_def case_prod_unfold comp_def)

lemma map_of_recomputed:
  "p \<in> set (keys t) \<Longrightarrow> map_of (map (\<lambda>(q, _). (q, g q)) t) p = Some (g p)"
  by (induction t) (auto simp: keys_def)

lemma rank_of_next_table:
  "p \<in> set (keys pagerank) \<Longrightarrow>
   rank_of (next_table c d pagerank) p = rank_update c d (rank_of pagerank) p"
  by (simp add: rank_of_def next_table_def map_of_recomputed)

lemma converged_value:
  "set ks \<subseteq> set (keys old) \<Longrightarrow> set ks \<subseteq> set (keys new) \<Longrightarrow>
   converged old new ks = Inr (list_all (\<lambda>p. \<bar>rank_of old p - rank_of new p\<bar> < 1 / 1000) ks)"
  by (induction ks) (simp_all add: py_getitem_rank_of)

lemma initial_pagerank_value: "initial_pagerank c = Inr (first_table c)"
proof (cases "c = []")
  case True
  then show ?thesis
    by (simp add: initial_pagerank_def first_table_def)
next
  case False
  then show ?thesis
    unfolding initial_pagerank_def first_table_def
    by (intro map_err_Inr) (simp add: case_prod_unfold py_div_def)
qed


text \<open>On a corpus with no sink the code and the rule of the specification agree.\<close>

lemma rank_update_no_sink:
  assumes "list_all (\<lambda>(i, links). links \<noteq> {||}) c"
  shows "rank_update c d old p = spec_update_rule c d old p"
proof -
  have "map (\<lambda>(i, links). if p |\<in>| links then old i / real (fcard links) else 0) c
        = map (\<lambda>(i, links). if links = {||} then old i / real (length c)
                              else if p |\<in>| links then old i / real (fcard links) else 0) c"
    using assms by (intro map_cong) (auto simp: list_all_iff)
  then show ?thesis
    by (simp only: rank_update_def spec_update_rule_def)
qed

text \<open>
  C2.  The code does not follow the rule on a sink page.  On the corpus where \<open>a\<close> links to
  \<open>b\<close> and \<open>b\<close> has no link, from the first table and with damping factor 0.85, line 143
  gives page \<open>a\<close> the rank 3/40: the sink \<open>b\<close> contributes nothing.  The rule of the
  specification gives 23/80, the sink contributing \<open>old_rank(b) / |corpus|\<close>.
\<close>

theorem new_rank_skips_sink:
  "new_rank [(''a'', {|''b''|}), (''b'', {||})] (85 / 100) [(''a'', 1 / 2), (''b'', 1 / 2)] ''a''
   = Inr (3 / 40)
   \<and> spec_update_rule [(''a'', {|''b''|}), (''b'', {||})] (85 / 100)
        (rank_of [(''a'', 1 / 2), (''b'', 1 / 2)]) ''a'' = 23 / 80"
  by (simp add: new_rank_def py_div_def py_getitem_def spec_update_rule_def rank_of_def
      fcard_finsert_if fcard_fempty)

text \<open>
  C3.  The table does not keep the sum 1 when the corpus has a sink.  On the same corpus
  the table after the first round sums to 23/40, and the table \<^verbatim>\<open>iterate_pagerank\<close> returns
  sums to 171/800.
\<close>

theorem rank_sum_lost_with_sink:
  "initial_pagerank [(''a'', {|''b''|}), (''b'', {||})] = Inr [(''a'', 1 / 2), (''b'', 1 / 2)]
   \<and> update_round [(''a'', {|''b''|}), (''b'', {||})] (85 / 100) [(''a'', 1 / 2), (''b'', 1 / 2)]
       = Inr [(''a'', 3 / 40), (''b'', 1 / 2)]
   \<and> sum_list (map snd [(''a'', 3 / 40), (''b'', 1 / (2::real))]) = 23 / 40
   \<and> iterate_pagerank [(''a'', {|''b''|}), (''b'', {||})] (85 / 100)
       = Some (Inr [(''a'', 3 / 40), (''b'', 111 / 800)])
   \<and> sum_list (map snd [(''a'', 3 / 40), (''b'', 111 / (800::real))]) = 171 / 800"
proof -
  have run: "iterate_pagerank [(''a'', {|''b''|}), (''b'', {||})] (85 / 100)
             = Some (Inr [(''a'', 3 / 40), (''b'', 111 / 800)])"
    by (simp only: iterate_pagerank_def sink_run_initial sum.case
        loop_returns_iterate_loop [OF sink_run])
  have first: "sum_list (map snd [(''a'', 3 / 40), (''b'', 1 / (2::real))]) = 23 / 40"
    by simp
  have last: "sum_list (map snd [(''a'', 3 / 40), (''b'', 111 / (800::real))]) = 171 / 800"
    by simp
  from sink_run_initial sink_run_rounds(1) first run last show ?thesis
    by blast
qed

section \<open>Termination of the loop\<close>

text \<open>
  One round shrinks the total change between consecutive tables by the factor \<open>\<bar>d\<bar>\<close>:
  a page spreads the change of its rank over its links, and each key of the corpus is
  counted once.
\<close>

lemma sum_list_swap:
  "(\<Sum>x\<leftarrow>xs. \<Sum>y\<leftarrow>ys. (f x y :: real)) = (\<Sum>y\<leftarrow>ys. \<Sum>x\<leftarrow>xs. f x y)"
  by (induction xs) (simp_all add: sum_list_addf)

lemma share_le:
  assumes "distinct ks" and "0 \<le> (a::real)"
  shows "(\<Sum>p\<leftarrow>ks. if p |\<in>| links then a / real (fcard links) else 0) \<le> a"
proof -
  have "(\<Sum>p\<leftarrow>ks. if p |\<in>| links then a / real (fcard links) else 0)
        = (\<Sum>p\<in>set ks. if p \<in> fset links then a / real (fcard links) else 0)"
    using assms(1) by (simp add: sum_list_distinct_conv_sum_set)
  also have "\<dots> = (\<Sum>p\<in>set ks \<inter> fset links. a / real (fcard links))"
    by (rule sum.inter_restrict [symmetric]) simp
  also have "\<dots> = real (card (set ks \<inter> fset links)) * (a / real (fcard links))"
    by simp
  also have "\<dots> \<le> real (fcard links) * (a / real (fcard links))"
  proof (rule mult_right_mono)
    have "card (set ks \<inter> fset links) \<le> card (fset links)"
      by (rule card_mono) simp_all
    then show "real (card (set ks \<inter> fset links)) \<le> real (fcard links)"
      by (simp add: fcard.rep_eq)
    show "0 \<le> a / real (fcard links)"
      using assms(2) by simp
  qed
  also have "\<dots> \<le> a"
    using assms(2) by (cases "fcard links = 0") simp_all
  finally show ?thesis .
qed

lemma rank_update_diff:
  "rank_update c d f p - rank_update c d g p
   = d * (\<Sum>(i, links)\<leftarrow>c. if p |\<in>| links then (f i - g i) / real (fcard links) else 0)"
proof -
  have "(\<Sum>(i, links)\<leftarrow>c. if p |\<in>| links then (f i - g i) / real (fcard links) else 0)
        = (\<Sum>(i, links)\<leftarrow>c. if p |\<in>| links then f i / real (fcard links) else 0)
          - (\<Sum>(i, links)\<leftarrow>c. if p |\<in>| links then g i / real (fcard links) else 0)"
    by (induction c) (auto simp: diff_divide_distrib)
  then show ?thesis
    by (simp add: rank_update_def right_diff_distrib)
qed

lemma contraction:
  assumes "distinct (keys c)"
  shows "(\<Sum>p\<leftarrow>keys c. \<bar>rank_update c d f p - rank_update c d g p\<bar>)
         \<le> \<bar>d\<bar> * (\<Sum>p\<leftarrow>keys c. \<bar>f p - g p\<bar>)"
proof -
  let ?part = "\<lambda>p (i, links). if p |\<in>| links then \<bar>f i - g i\<bar> / real (fcard links) else 0"
  have one: "\<bar>rank_update c d f p - rank_update c d g p\<bar> \<le> \<bar>d\<bar> * (\<Sum>e\<leftarrow>c. ?part p e)" for p
  proof -
    have "\<bar>\<Sum>(i, links)\<leftarrow>c. if p |\<in>| links then (f i - g i) / real (fcard links) else 0\<bar>
          \<le> (\<Sum>e\<leftarrow>c. \<bar>case e of (i, links) \<Rightarrow>
                     if p |\<in>| links then (f i - g i) / real (fcard links) else 0\<bar>)"
      using sum_list_abs [of "map (\<lambda>(i, links). if p |\<in>| links
                                     then (f i - g i) / real (fcard links) else 0) c"]
      by (simp add: comp_def)
    also have "\<dots> = (\<Sum>e\<leftarrow>c. ?part p e)"
      by (rule arg_cong [where f = sum_list], rule map_cong) (auto split: prod.splits)
    finally show ?thesis
      by (simp add: rank_update_diff abs_mult mult_left_mono)
  qed
  have "(\<Sum>p\<leftarrow>keys c. \<bar>rank_update c d f p - rank_update c d g p\<bar>)
        \<le> (\<Sum>p\<leftarrow>keys c. \<bar>d\<bar> * (\<Sum>e\<leftarrow>c. ?part p e))"
    by (rule sum_list_mono) (rule one)
  also have "\<dots> = \<bar>d\<bar> * (\<Sum>p\<leftarrow>keys c. \<Sum>e\<leftarrow>c. ?part p e)"
    by (simp add: sum_list_const_mult)
  also have "(\<Sum>p\<leftarrow>keys c. \<Sum>e\<leftarrow>c. ?part p e) = (\<Sum>e\<leftarrow>c. \<Sum>p\<leftarrow>keys c. ?part p e)"
    by (rule sum_list_swap)
  also have "\<dots> \<le> (\<Sum>e\<leftarrow>c. \<bar>f (fst e) - g (fst e)\<bar>)"
  proof (rule sum_list_mono)
    fix e :: "page \<times> page fset"
    obtain i links where e: "e = (i, links)"
      by (cases e)
    show "(\<Sum>p\<leftarrow>keys c. ?part p e) \<le> \<bar>f (fst e) - g (fst e)\<bar>"
      unfolding e using share_le [OF assms, of "\<bar>f i - g i\<bar>" links] by simp
  qed
  also have "\<dots> = (\<Sum>p\<leftarrow>keys c. \<bar>f p - g p\<bar>)"
    by (simp add: keys_def comp_def)
  finally show ?thesis
    by (simp add: mult_left_mono)
qed


lemma keys_first_table: "keys (first_table c) = keys c"
  by (simp add: first_table_def keys_def case_prod_unfold comp_def)

lemma table_after_Suc: "table_after c d (Suc k) = next_table c d (table_after c d k)"
  by (simp add: table_after_def)

lemma keys_table_after: "keys (table_after c d k) = keys c"
  by (induction k) (simp_all add: table_after_def keys_first_table keys_next_table)

lemma rank_of_table_after_Suc:
  "p \<in> set (keys c) \<Longrightarrow>
   rank_of (table_after c d (Suc k)) p = rank_update c d (rank_of (table_after c d k)) p"
  by (simp add: table_after_Suc rank_of_next_table keys_table_after)

lemma change_nonneg: "0 \<le> change c old new"
  unfolding change_def by (rule sum_list_nonneg) auto

lemma change_step:
  assumes "distinct (keys c)"
  shows "change c (table_after c d (Suc k)) (table_after c d (Suc (Suc k)))
         \<le> \<bar>d\<bar> * change c (table_after c d k) (table_after c d (Suc k))"
proof -
  let ?x = "\<lambda>k. rank_of (table_after c d k)"
  have "change c (table_after c d (Suc k)) (table_after c d (Suc (Suc k)))
        = (\<Sum>p\<leftarrow>keys c. \<bar>rank_update c d (?x (Suc k)) p - rank_update c d (?x k) p\<bar>)"
    unfolding change_def
    by (rule arg_cong [where f = sum_list], rule map_cong) (simp_all add: rank_of_table_after_Suc)
  also have "\<dots> \<le> \<bar>d\<bar> * (\<Sum>p\<leftarrow>keys c. \<bar>?x (Suc k) p - ?x k p\<bar>)"
    by (rule contraction [OF assms])
  finally show ?thesis
    by (simp add: change_def)
qed

lemma change_bound:
  assumes "distinct (keys c)"
  shows "change c (table_after c d k) (table_after c d (Suc k))
         \<le> \<bar>d\<bar> ^ k * change c (table_after c d 0) (table_after c d (Suc 0))"
proof (induction k)
  case 0
  show ?case by simp
next
  case (Suc k)
  have "change c (table_after c d (Suc k)) (table_after c d (Suc (Suc k)))
        \<le> \<bar>d\<bar> * change c (table_after c d k) (table_after c d (Suc k))"
    by (rule change_step [OF assms])
  also have "\<dots> \<le> \<bar>d\<bar> * (\<bar>d\<bar> ^ k * change c (table_after c d 0) (table_after c d (Suc 0)))"
    by (rule mult_left_mono [OF Suc.IH]) simp
  finally show ?case
    by (simp add: mult.assoc)
qed

lemma change_small:
  assumes "distinct (keys c)" and "\<bar>d\<bar> < 1"
  shows "\<exists>k. change c (table_after c d k) (table_after c d (Suc k)) < 1 / 1000"
proof (cases "change c (table_after c d 0) (table_after c d (Suc 0)) = 0")
  case True
  then show ?thesis
    by (intro exI [of _ 0]) simp
next
  case False
  let ?c0 = "change c (table_after c d 0) (table_after c d (Suc 0))"
  from False change_nonneg [of c "table_after c d 0" "table_after c d (Suc 0)"]
  have pos: "0 < ?c0"
    by simp
  then have "0 < (1 / 1000) / ?c0"
    by simp
  from real_arch_pow_inv [OF this assms(2)] obtain k where "\<bar>d\<bar> ^ k < (1 / 1000) / ?c0"
    by blast
  with pos have "\<bar>d\<bar> ^ k * ?c0 < 1 / 1000"
    by (simp add: pos_less_divide_eq)
  with change_bound [OF assms(1), of d k] show ?thesis
    by (intro exI [of _ k]) simp
qed

lemma converged_when_change_small:
  assumes "change c (table_after c d k) (table_after c d (Suc k)) < 1 / 1000"
  shows "converged (table_after c d k) (table_after c d (Suc k)) (keys (table_after c d (Suc k)))
         = Inr True"
proof -
  have "\<bar>rank_of (table_after c d k) p - rank_of (table_after c d (Suc k)) p\<bar> < 1 / 1000"
    if "p \<in> set (keys c)" for p
  proof -
    let ?xs = "map (\<lambda>p. \<bar>rank_of (table_after c d (Suc k)) p - rank_of (table_after c d k) p\<bar>) (keys c)"
    have "\<bar>rank_of (table_after c d (Suc k)) p - rank_of (table_after c d k) p\<bar> \<in> set ?xs"
      using that by simp
    moreover have "\<And>x. x \<in> set ?xs \<Longrightarrow> 0 \<le> x"
      by auto
    ultimately have "\<bar>rank_of (table_after c d (Suc k)) p - rank_of (table_after c d k) p\<bar>
                     \<le> sum_list ?xs"
      by (rule member_le_sum_list)
    with assms show ?thesis
      by (simp add: change_def abs_minus_commute)
  qed
  then show ?thesis
    by (simp add: converged_value keys_table_after list_all_iff)
qed

lemma loop_reaches_break:
  assumes "converged (table_after c d k) (table_after c d (Suc k)) (keys (table_after c d (Suc k)))
           = Inr True"
    and "j \<le> k"
  shows "\<exists>r. iterate_loop c d (table_after c d j) = Some (Inr r)"
  using assms(2)
proof (induction "k - j" arbitrary: j)
  case 0
  then have "j = k"
    by simp
  with assms(1) show ?case
    by (subst iterate_loop.simps)
       (simp add: update_round_value keys_table_after table_after_Suc [symmetric])
next
  case (Suc n)
  then have le: "Suc j \<le> k" and n: "n = k - Suc j"
    by simp_all
  from Suc.hyps(1) [OF n le] obtain r where r: "iterate_loop c d (table_after c d (Suc j)) = Some (Inr r)"
    by blast
  have "converged (table_after c d j) (table_after c d (Suc j)) (keys (table_after c d (Suc j)))
        = Inr (list_all (\<lambda>p. \<bar>rank_of (table_after c d j) p - rank_of (table_after c d (Suc j)) p\<bar> < 1 / 1000)
                 (keys c))"
    by (simp add: converged_value keys_table_after)
  with r show ?case
    by (subst iterate_loop.simps)
       (simp add: update_round_value keys_table_after table_after_Suc [symmetric])
qed

text \<open>
  C7, as amended.  In exact arithmetic, when the keys of the corpus are distinct and the
  damping factor \<open>d\<close> satisfies \<open>\<bar>d\<bar> < 1\<close>, which covers every \<open>d\<close> with \<open>0 \<le> d < 1\<close>, the
  loop of \<^verbatim>\<open>iterate_pagerank\<close> reaches \<^verbatim>\<open>break\<close> and a rank table is returned; no exception
  is raised.  Sink pages and an empty corpus are included.
\<close>

theorem iterate_pagerank_terminates:
  assumes "distinct (keys corpus)" and "\<bar>d\<bar> < 1"
  shows "\<exists>r. iterate_pagerank corpus d = Some (Inr r)"
proof -
  from change_small [OF assms] obtain k
    where "change corpus (table_after corpus d k) (table_after corpus d (Suc k)) < 1 / 1000"
    by blast
  then have "converged (table_after corpus d k) (table_after corpus d (Suc k))
               (keys (table_after corpus d (Suc k))) = Inr True"
    by (rule converged_when_change_small)
  from loop_reaches_break [OF this, of 0] obtain r
    where "iterate_loop corpus d (table_after corpus d 0) = Some (Inr r)"
    by blast
  then show ?thesis
    by (simp add: iterate_pagerank_def initial_pagerank_value table_after_def)
qed


theorem iterate_pagerank_terminates_witness:
  "distinct (keys [(''a'', {|''b''|}), (''b'', {||})]) \<and> \<bar>85 / 100 :: real\<bar> < 1
   \<and> (\<exists>r. iterate_pagerank [(''a'', {|''b''|}), (''b'', {||})] (85 / 100) = Some (Inr r))"
proof -
  have h1: "distinct (keys [(''a'', {|''b''|}), (''b'', {||})])"
    by (simp add: keys_def)
  have h2: "\<bar>85 / 100 :: real\<bar> < 1"
    by simp
  show ?thesis
    using h1 h2 iterate_pagerank_terminates [OF h1 h2] by simp
qed

section \<open>Runs that never end\<close>

text \<open>
  On the corpus \<open>star\<close> a round with damping factor \<open>d\<close> is explicit.  With \<open>d = 1\<close> the
  table alternates between two values, in exact arithmetic and in the arithmetic of the
  program alike, and the rank of \<open>a\<close> moves by 1/3 in every round, so the test of line 146
  fails for ever.
\<close>

lemma star_round:
  "update_round star d [(''a'', x), (''b'', y), (''c'', z)]
   = Inr [(''a'', (1 - d) / 3 + d * (y + z)), (''b'', (1 - d) / 3 + d * (x / 2)),
          (''c'', (1 - d) / 3 + d * (x / 2))]"
  by (simp add: star_def update_round_def new_rank_def py_div_def py_getitem_def
      fcard_finsert_if fcard_fempty)

lemma star_round_one:
  "update_round star 1 [(''a'', x), (''b'', y), (''c'', z)]
   = Inr [(''a'', y + z), (''b'', x / 2), (''c'', x / 2)]"
  by (simp add: star_round)

lemma star_one_never_returns:
  assumes "loop_returns star 1 t r"
    and "t = [(''a'', 1 / 3), (''b'', 1 / 3), (''c'', 1 / 3)]
         \<or> t = [(''a'', 2 / 3), (''b'', 1 / 6), (''c'', 1 / 6)]"
  shows False
  using assms
proof (induction rule: loop_returns.induct)
  case (round_raises pagerank e)
  then show ?case
    by (auto simp: star_round)
next
  case (test_raises pagerank pagerank' e)
  then show ?case
    by (auto simp: star_round keys_def py_getitem_def split: if_splits)
next
  case (leave pagerank pagerank')
  then show ?case
    by (auto simp: star_round keys_def py_getitem_def split: if_splits)
next
  case (again pagerank pagerank' r)
  from again.prems again.hyps(1)
  have "pagerank' = [(''a'', 1 / 3), (''b'', 1 / 3), (''c'', 1 / 3)]
         \<or> pagerank' = [(''a'', 2 / 3), (''b'', 1 / 6), (''c'', 1 / 6)]"
    by (auto simp: star_round)
  then show ?case
    by (rule again.IH)
qed

lemma star_initial: "initial_pagerank star = Inr [(''a'', 1 / 3), (''b'', 1 / 3), (''c'', 1 / 3)]"
  by (simp add: star_def initial_pagerank_def py_div_def)

text \<open>
  In the arithmetic of the program a loop whose table comes back after two rounds, the
  test failing in both, never returns.
\<close>

lemma two_cycle_never_returns:
  assumes r01: "update_round_float c d ta = Inr tb"
    and r10: "update_round_float c d tb = Inr ta"
    and c01: "converged_float ta tb (keys tb) = Inr False"
    and c10: "converged_float tb ta (keys ta) = Inr False"
  shows "iterate_loop_float c d ta = None"
proof (rule ccontr)
  assume "iterate_loop_float c d ta \<noteq> None"
  then obtain r where run: "iterate_loop_float c d ta = Some r"
    by auto
  have "c' = c \<and> d' = d \<and> (t = ta \<or> t = tb) \<longrightarrow> False"
    if "iterate_loop_float c' d' t = Some r'" for c' d' t r'
    using that
  proof (rule iterate_loop_float.raw_induct
      [where P = "\<lambda>c' d' t r'. c' = c \<and> d' = d \<and> (t = ta \<or> t = tb) \<longrightarrow> False", rotated])
    fix f c' d' t r'
    assume IH: "\<And>c' d' t r'. f c' d' t = Some r' \<Longrightarrow> c' = c \<and> d' = d \<and> (t = ta \<or> t = tb) \<longrightarrow> False"
      and eq: "(case update_round_float c' d' t of
                  Inl e \<Rightarrow> Some (Inl e)
                | Inr pagerank' \<Rightarrow>
                    (case converged_float t pagerank' (keys pagerank') of
                       Inl e \<Rightarrow> Some (Inl e)
                     | Inr stop \<Rightarrow> if stop then Some (Inr pagerank') else f c' d' pagerank'))
               = Some r'"
    show "c' = c \<and> d' = d \<and> (t = ta \<or> t = tb) \<longrightarrow> False"
    proof (intro impI, elim conjE)
      assume c': "c' = c" and d': "d' = d" and t: "t = ta \<or> t = tb"
      from t show False
      proof
        assume "t = ta"
        with eq c' d' r01 c01 have "f c d tb = Some r'"
          by simp
        from IH [OF this] show False
          by simp
      next
        assume "t = tb"
        with eq c' d' r10 c10 have "f c d ta = Some r'"
          by simp
        from IH [OF this] show False
          by simp
      qed
    qed
  qed
  from this [OF run] show False
    by simp
qed

lemma held_star_never_returns: "iterate_pagerank_float held_star (Num 1) = None"
proof -
  let ?ta = "[(''a'', Num (6004799503160661 / 2 ^ 54)), (''b'', Num (6004799503160661 / 2 ^ 54)),
              (''c'', Num (6004799503160661 / 2 ^ 54))]"
  let ?tb = "[(''a'', Num (6004799503160661 / 2 ^ 53)), (''b'', Num (6004799503160661 / 2 ^ 55)),
              (''c'', Num (6004799503160661 / 2 ^ 55))]"
  have i: "initial_pagerank_float held_star = Inr ?ta"
    by (simp add: initial_pagerank_float_def held_star_def float_evaluation)
  have r1: "update_round_float held_star (Num 1) ?ta = Inr ?tb"
    by (simp add: update_round_float_def new_rank_float_def held_star_def py_getitem_def
        float_evaluation)
  have r2: "update_round_float held_star (Num 1) ?tb = Inr ?ta"
    by (simp add: update_round_float_def new_rank_float_def held_star_def py_getitem_def
        float_evaluation)
  have c1: "converged_float ?ta ?tb (keys ?tb) = Inr False"
    by (simp add: py_getitem_def keys_def float_evaluation)
  have c2: "converged_float ?tb ?ta (keys ?ta) = Inr False"
    by (simp add: py_getitem_def keys_def float_evaluation)
  from two_cycle_never_returns [OF r1 r2 c1 c2] show ?thesis
    by (simp only: iterate_pagerank_float_def i sum.case)
qed

lemma two_sides_never_returns:
  "iterate_pagerank_float two_sides (Num (9007199254740991 / 2 ^ 53)) = None"
proof -
  have i: "initial_pagerank_float two_sides = Inr two_sides_start"
    by (simp add: initial_pagerank_float_def two_sides_start_def two_sides_def keys_def
        float_evaluation)
  have r1: "update_round_float two_sides (Num (9007199254740991 / 2 ^ 53)) two_sides_start
            = Inr two_sides_next"
    by (simp add: update_round_float_def new_rank_float_def two_sides_start_def
        two_sides_next_def two_sides_def py_getitem_def keys_def float_evaluation)
  have r2: "update_round_float two_sides (Num (9007199254740991 / 2 ^ 53)) two_sides_next
            = Inr two_sides_start"
    by (simp add: update_round_float_def new_rank_float_def two_sides_start_def
        two_sides_next_def two_sides_def py_getitem_def keys_def float_evaluation)
  have c1: "converged_float two_sides_start two_sides_next (keys two_sides_next) = Inr False"
    by (simp add: two_sides_start_def two_sides_next_def two_sides_def py_getitem_def keys_def
        float_evaluation)
  have c2: "converged_float two_sides_next two_sides_start (keys two_sides_start) = Inr False"
    by (simp add: two_sides_start_def two_sides_next_def two_sides_def py_getitem_def keys_def
        float_evaluation)
  from two_cycle_never_returns [OF r1 r2 c1 c2] show ?thesis
    by (simp only: iterate_pagerank_float_def i sum.case)
qed

text \<open>
  C7, as stated, fails.  In the arithmetic of the program the loop never ends on the corpus
  \<open>two_sides\<close>, which is not empty and has distinct keys and links within its keys, with
  the damping factor \<open>1 - 2^-53\<close>, which Python writes 0.9999999999999999 and which lies in
  \<open>[0,1)\<close>.  With the damping factor 1 the loop never ends on the corpus \<open>star\<close>, in exact
  arithmetic and in the arithmetic of the program, although every page reaches every page,
  so that the chain has a single class and no two absorbing classes.
\<close>

theorem iterate_pagerank_runs_forever:
  "two_sides \<noteq> [] \<and> distinct (keys two_sides) \<and> held_sets two_sides
   \<and> links_closed (corpus_of two_sides)
   \<and> (0::real) \<le> 9007199254740991 / 2 ^ 53 \<and> (9007199254740991 / 2 ^ 53 :: real) < 1
   \<and> round_to_double (9007199254740991 / 2 ^ 53) = Num (9007199254740991 / 2 ^ 53)
   \<and> iterate_pagerank_float two_sides (Num (9007199254740991 / 2 ^ 53)) = None
   \<and> corpus_of held_star = star \<and> single_class star
   \<and> iterate_pagerank star 1 = None
   \<and> iterate_pagerank_float held_star (Num 1) = None"
proof -
  have shape: "two_sides \<noteq> []" "distinct (keys two_sides)" "held_sets two_sides"
    "links_closed (corpus_of two_sides)"
    by (simp_all add: two_sides_def keys_def held_sets_def links_closed_def corpus_of_def
        fset_of_list.rep_eq)
  have d: "(0::real) \<le> 9007199254740991 / 2 ^ 53" "(9007199254740991 / 2 ^ 53 :: real) < 1"
    "round_to_double (9007199254740991 / 2 ^ 53) = Num (9007199254740991 / 2 ^ 53)"
    by (simp_all add: float_evaluation)
  have same: "corpus_of held_star = star"
    by (simp add: corpus_of_def held_star_def star_def)
  have "iterate_loop star 1 [(''a'', 1 / 3), (''b'', 1 / 3), (''c'', 1 / 3)] = None"
  proof (rule ccontr)
    assume "iterate_loop star 1 [(''a'', 1 / 3), (''b'', 1 / 3), (''c'', 1 / 3)] \<noteq> None"
    then obtain r where "iterate_loop star 1 [(''a'', 1 / 3), (''b'', 1 / 3), (''c'', 1 / 3)] = Some r"
      by auto
    then have "loop_returns star 1 [(''a'', 1 / 3), (''b'', 1 / 3), (''c'', 1 / 3)] r"
      by (rule iterate_loop_loop_returns)
    then show False
      by (rule star_one_never_returns) simp
  qed
  then have one: "iterate_pagerank star 1 = None"
    by (simp add: iterate_pagerank_def star_initial)
  have in_a: "(''a'', {|''b'', ''c''|}) \<in> set star"
    and in_b: "(''b'', {|''a''|}) \<in> set star" and in_c: "(''c'', {|''a''|}) \<in> set star"
    by (simp_all add: star_def)
  have ab: "reaches star ''a'' ''b''"
    by (rule reaches.step [OF in_a _ reaches.here]) simp
  have ac: "reaches star ''a'' ''c''"
    by (rule reaches.step [OF in_a _ reaches.here]) simp
  have ba: "reaches star ''b'' ''a''"
    by (rule reaches.step [OF in_b _ reaches.here]) simp
  have ca: "reaches star ''c'' ''a''"
    by (rule reaches.step [OF in_c _ reaches.here]) simp
  have bc: "reaches star ''b'' ''c''"
    by (rule reaches.step [OF in_b _ ac]) simp
  have cb: "reaches star ''c'' ''b''"
    by (rule reaches.step [OF in_c _ ab]) simp
  have cls: "single_class star"
    using ab ac ba ca bc cb by (simp add: single_class_def star_def keys_def reaches.here)
  from shape d two_sides_never_returns same cls one held_star_never_returns show ?thesis
    by blast
qed

end
